theory Spec2Isabelle
  imports Main "HOL-Library.Word"
begin

section \<open>Text and paths\<close>

text \<open>
  A Python \<open>str\<close> is modelled as a \<open>string\<close> whose characters are the code points
  below 256; \<open>lower\<close> and \<open>strip\<close> are Python's \<open>str.lower\<close> and \<open>str.strip\<close>
  on that range. A \<open>bytes\<close> value is a list of 8-bit words.
\<close>

type_synonym byte = "8 word"

definition LF :: char where
  "LF = CHR 0x0A"

definition CR :: char where
  "CR = CHR 0x0D"

definition lower_char :: "char \<Rightarrow> char" where
  "lower_char c =
     (let n = (of_char c :: nat)
      in if (65 \<le> n \<and> n \<le> 90) \<or> (192 \<le> n \<and> n \<le> 222 \<and> n \<noteq> 215)
         then char_of (n + 32) else c)"

definition lower :: "string \<Rightarrow> string" where
  "lower s = map lower_char s"

definition isspace :: "char \<Rightarrow> bool" where
  "isspace c =
     (let n = (of_char c :: nat)
      in (9 \<le> n \<and> n \<le> 13) \<or> (28 \<le> n \<and> n \<le> 32) \<or> n = 133 \<or> n = 160)"

definition strip :: "string \<Rightarrow> string" where
  "strip s = rev (dropWhile isspace (rev (dropWhile isspace s)))"

text \<open>\<open>needle in haystack\<close> on strings.\<close>

fun contains :: "string \<Rightarrow> string \<Rightarrow> bool" where
  "contains needle [] = (needle = [])"
| "contains needle (c # cs) = (take (length needle) (c # cs) = needle \<or> contains needle cs)"

text \<open>\<open>str.rfind\<close> for a single character: the highest index holding it, or -1.\<close>

fun rfind_from :: "string \<Rightarrow> char \<Rightarrow> int \<Rightarrow> int \<Rightarrow> int" where
  "rfind_from [] c i found = found"
| "rfind_from (x # xs) c i found = rfind_from xs c (i + 1) (if x = c then i else found)"

definition rfind :: "string \<Rightarrow> char \<Rightarrow> int" where
  "rfind p c = rfind_from p c 0 (- 1)"

text \<open>\<open>posixpath.basename\<close>: \<open>i = p.rfind('/') + 1; return p[i:]\<close>.\<close>

definition basename :: "string \<Rightarrow> string" where
  "basename p = drop (nat (rfind p CHR ''/'' + 1)) p"

text \<open>
  \<open>posixpath.splitext\<close> (\<open>genericpath._splitext\<close> with separator \<open>/\<close> and no
  alternative separator): the extension starts at the last dot of the last path
  component, unless that component has only dots before it.
\<close>

function splitext_scan :: "string \<Rightarrow> int \<Rightarrow> int \<Rightarrow> string \<times> string" where
  "splitext_scan p dotIndex filenameIndex =
     (if filenameIndex < dotIndex then
        (if take 1 (drop (nat filenameIndex) p) \<noteq> ''.''
         then (take (nat dotIndex) p, drop (nat dotIndex) p)
         else splitext_scan p dotIndex (filenameIndex + 1))
      else (p, []))"
  by pat_completeness auto
termination
  by (relation "measure (\<lambda>(p, d, i). nat (d - i))") auto

definition splitext :: "string \<Rightarrow> string \<times> string" where
  "splitext p =
     (let sepIndex = rfind p CHR ''/'';
          dotIndex = rfind p CHR ''.''
      in if dotIndex > sepIndex then splitext_scan p dotIndex (sepIndex + 1) else (p, []))"

section \<open>The downloader: content types\<close>

definition content_types :: "(string \<times> string) list" where
  "content_types =
     [(''.pdf'', ''application/pdf''),
      (''.mp3'', ''audio/mpeg''),
      (''.txt'', ''text/plain''),
      (''.json'', ''application/json'')]"

definition get_content_type :: "string \<Rightarrow> string" where
  "get_content_type filename =
     (let ext = lower (snd (splitext filename))
      in case map_of content_types ext of
           Some t \<Rightarrow> t
         | None \<Rightarrow> ''application/octet-stream'')"

section \<open>The scraper: persisting records\<close>

text \<open>
  A scraped record is the dictionary with the keys \<open>filename\<close>, \<open>url\<close> and
  \<open>release_date\<close>, in this order of insertion.
\<close>

record mlk_record =
  rec_filename :: string
  rec_url :: string
  rec_release_date :: string

definition record_items :: "mlk_record \<Rightarrow> (string \<times> string) list" where
  "record_items r =
     [(''filename'', rec_filename r), (''url'', rec_url r), (''release_date'', rec_release_date r)]"

text \<open>
  The file system maps a file name to the text written to it. Opening a file with mode
  \<open>w\<close> creates or truncates it; writes are taken to succeed, and \<open>\n\<close> is
  written as it is (POSIX).
\<close>

type_synonym filesystem = "string \<rightharpoonup> string"

definition DQUOTE :: char where
  "DQUOTE = CHR 0x22"

definition BACKSLASH :: char where
  "BACKSLASH = CHR 0x5C"

fun join :: "string \<Rightarrow> string list \<Rightarrow> string" where
  "join sep [] = []"
| "join sep [x] = x"
| "join sep (x # y # ys) = x @ sep @ join sep (y # ys)"

subsection \<open>\<open>csv.DictWriter\<close> with the default (excel) dialect\<close>

definition csv_field :: "string \<Rightarrow> string" where
  "csv_field s =
     (if CHR '','' \<in> set s \<or> DQUOTE \<in> set s \<or> CR \<in> set s \<or> LF \<in> set s
      then [DQUOTE] @ concat (map (\<lambda>c. if c = DQUOTE then [DQUOTE, DQUOTE] else [c]) s) @ [DQUOTE]
      else s)"

definition writerow :: "string \<Rightarrow> string list \<Rightarrow> string" where
  "writerow csvfile row = csvfile @ join '','' (map csv_field row) @ [CR, LF]"

definition fieldnames :: "string list" where
  "fieldnames = [''filename'', ''url'', ''release_date'']"

definition dict_to_list :: "mlk_record \<Rightarrow> string list" where
  "dict_to_list rowdict =
     map (\<lambda>key. case map_of (record_items rowdict) key of Some v \<Rightarrow> v | None \<Rightarrow> []) fieldnames"

definition writeheader :: "string \<Rightarrow> string" where
  "writeheader csvfile = writerow csvfile fieldnames"

fun writerows :: "string \<Rightarrow> mlk_record list \<Rightarrow> string" where
  "writerows csvfile [] = csvfile"
| "writerows csvfile (rowdict # rowdicts) =
     writerows (writerow csvfile (dict_to_list rowdict)) rowdicts"

subsection \<open>\<open>json.dump(records, indent=2, ensure_ascii=False)\<close>\<close>

definition hex_digit :: "nat \<Rightarrow> char" where
  "hex_digit n = (if n < 10 then char_of (48 + n) else char_of (87 + n))"

definition json_escape :: "char \<Rightarrow> string" where
  "json_escape c =
     (let n = (of_char c :: nat)
      in if c = BACKSLASH then [BACKSLASH, BACKSLASH]
         else if c = DQUOTE then [BACKSLASH, DQUOTE]
         else if n = 8 then [BACKSLASH, CHR ''b'']
         else if n = 12 then [BACKSLASH, CHR ''f'']
         else if n = 10 then [BACKSLASH, CHR ''n'']
         else if n = 13 then [BACKSLASH, CHR ''r'']
         else if n = 9 then [BACKSLASH, CHR ''t'']
         else if n < 32 then [BACKSLASH, CHR ''u'', CHR ''0'', CHR ''0'', hex_digit (n div 16), hex_digit (n mod 16)]
         else [c])"

definition json_string :: "string \<Rightarrow> string" where
  "json_string s = [DQUOTE] @ concat (map json_escape s) @ [DQUOTE]"

definition json_dict :: "mlk_record \<Rightarrow> string" where
  "json_dict r =
     ''{'' @ [LF] @ ''    ''
       @ join ('','' @ [LF] @ ''    '')
           (map (\<lambda>(k, v). json_string k @ '': '' @ json_string v) (record_items r))
       @ [LF] @ ''  '' @ ''}''"

definition json_dump :: "mlk_record list \<Rightarrow> string" where
  "json_dump records =
     (if records = [] then ''[]''
      else ''['' @ [LF] @ ''  '' @ join ('','' @ [LF] @ ''  '') (map json_dict records) @ [LF] @ '']'')"

subsection \<open>\<open>save_records\<close>\<close>

text \<open>The loop writing the URL list: \<open>urlfile.write(record['url'] + '\n')\<close>.\<close>

fun write_urls :: "string \<Rightarrow> mlk_record list \<Rightarrow> string" where
  "write_urls urlfile [] = urlfile"
| "write_urls urlfile (r # records) = write_urls (urlfile @ (rec_url r @ [LF])) records"

text \<open>\<open>timestamp\<close> is the value of \<open>time.strftime("%Y%m%d_%H%M%S")\<close> at the call.\<close>

definition save_records :: "string \<Rightarrow> mlk_record list \<Rightarrow> string \<Rightarrow> filesystem \<Rightarrow> filesystem" where
  "save_records timestamp records format fs =
     (if records = [] then fs
      else
        let fs1 =
              (if format = ''csv'' then
                 (let filename = ''mlk_records_'' @ timestamp @ ''.csv''
                  in fs(filename \<mapsto> writerows (writeheader []) records))
               else if format = ''json'' then
                 (let filename = ''mlk_records_'' @ timestamp @ ''.json''
                  in fs(filename \<mapsto> json_dump records))
               else fs);
            urls_filename = ''mlk_urls_'' @ timestamp @ ''.txt''
        in fs1(urls_filename \<mapsto> write_urls [] records))"

section \<open>The index generator\<close>

definition BUCKET :: string where
  "BUCKET = ''example-transformations-mlk-archive''"

definition PREFIX :: string where
  "PREFIX = ''mlk-archive/''"

definition OUTPUT_FILE :: string where
  "OUTPUT_FILE = ''index.html''"

definition PROCESSED_JSONL_URL :: string where
  "PROCESSED_JSONL_URL =
     ''https://example-transformations-mlk-archive.s3.us-east-1.amazonaws.com/transformed-data/mlk-archive-public.jsonl''"

text \<open>
  An entry of a \<open>list_objects_v2\<close> page, and a page: its \<open>Contents\<close> entry, which
  is absent when the page lists nothing.
\<close>

record listed_object =
  Key :: string

type_synonym page = "listed_object list option"

text \<open>\<open>str.split(sep)\<close> for a single character, and \<open>str.endswith\<close>.\<close>

fun split :: "char \<Rightarrow> string \<Rightarrow> string list" where
  "split sep [] = [[]]"
| "split sep (c # cs) =
     (if c = sep then [] # split sep cs
      else (case split sep cs of
              x # xs \<Rightarrow> (c # x) # xs
            | [] \<Rightarrow> [[c]]))"

definition endswith :: "string \<Rightarrow> string \<Rightarrow> bool" where
  "endswith s suffix =
     (length suffix \<le> length s \<and> drop (length s - length suffix) s = suffix)"

definition object_line :: "string \<Rightarrow> string" where
  "object_line key =
     (let url = ''https://'' @ BUCKET @ ''.s3.amazonaws.com/'' @ key;
          filename = last (split CHR ''/'' key)
      in ''<li><a href='' @ [DQUOTE] @ url @ [DQUOTE] @ ''>'' @ filename @ ''</a></li>'')"

text \<open>The inner loop over the objects of a page, and the outer loop over the pages.\<close>

fun contents_loop :: "string list \<Rightarrow> listed_object list \<Rightarrow> string list" where
  "contents_loop html [] = html"
| "contents_loop html (obj # objs) =
     (let key = Key obj
      in if endswith key ''/'' then contents_loop html objs
         else contents_loop (html @ [object_line key]) objs)"

fun pages_loop :: "string list \<Rightarrow> page list \<Rightarrow> string list" where
  "pages_loop html [] = html"
| "pages_loop html (page # pages) =
     pages_loop (contents_loop html (case page of Some contents \<Rightarrow> contents | None \<Rightarrow> [])) pages"

definition index_html :: "page list \<Rightarrow> string list" where
  "index_html pages =
     (let html = [''<html><body>''];
          html = html @ [''<h1>Processed Dataset</h1>''];
          html = html @ [''<p><a href='' @ [DQUOTE] @ PROCESSED_JSONL_URL @ [DQUOTE]
                          @ ''>Download mlk-archive-public.jsonl</a></p>''];
          html = html @ [''<h1>Unprocessed National Archive Files</h1><ul>''];
          html = pages_loop html pages
      in html @ [''</ul></body></html>''])"

text \<open>
  The script. The listing is what the paginator yields for \<open>BUCKET\<close> and \<open>PREFIX\<close>;
  when the paginator raises (\<open>Inl\<close>), the script stops before any file is opened.
\<close>

definition generate_index :: "string + page list \<Rightarrow> filesystem \<Rightarrow> string + filesystem" where
  "generate_index listing fs =
     (case listing of
        Inl err \<Rightarrow> Inl err
      | Inr pages \<Rightarrow> Inr (fs(OUTPUT_FILE \<mapsto> join [LF] (index_html pages))))"

section \<open>The downloader\<close>

subsection \<open>The web server and the bucket\<close>

text \<open>
  The value of the \<open>content-length\<close> header of a response is represented by what
  \<open>int()\<close> makes of it: the integer, or the message of the \<open>ValueError\<close>.
\<close>

datatype header_text = IntText int | NonIntText string

text \<open>
  Outcomes of the HTTP calls: a \<open>requests.RequestException\<close> with its message (raised by
  the call, by \<open>raise_for_status\<close> or while the body is read), or the response: for HEAD the
  \<open>content-length\<close> header if present, for GET the chunks of the body.
\<close>

datatype head_outcome = HeadRaises string | HeadOk "header_text option"

datatype get_outcome = GetRaises string | GetOk "byte list list"

text \<open>
  An exception of the S3 client: a \<open>ClientError\<close> with its error code and message, or any
  other exception with its message.
\<close>

datatype s3_exception = ClientError string string | OtherError string

text \<open>
  A stored object. \<open>ContentLength\<close> is the entry of that name in the response of
  \<open>head_object\<close>, absent when the response has none.
\<close>

record s3_object =
  Body :: "byte list"
  ContentLength :: "int option"
  ContentType :: string
  Metadata :: "(string \<times> string) list"

text \<open>
  What a run did to the outside: each HEAD and GET request sent, each \<open>head_object\<close> call
  and each object stored by a completed upload, in order.
\<close>

datatype event = HEAD string | HeadObject string | GET string | Uploaded string s3_object

record world =
  objects :: "string \<rightharpoonup> s3_object"
  calls :: "event list"

text \<open>
  The environment: the path component that \<open>urlparse\<close> gives for a URL (\<open>None\<close> when it
  raises \<open>ValueError\<close>), the answers of the web server, the exceptions of the S3 client,
  and the value of \<open>time.strftime('%Y-%m-%d %H:%M:%S')\<close>.
\<close>

record env =
  urlparse_path :: "string \<Rightarrow> string option"
  session_head :: "string \<Rightarrow> head_outcome"
  session_get :: "string \<Rightarrow> get_outcome"
  head_object_raises :: "string \<Rightarrow> s3_exception option"
  upload_fileobj_raises :: "string \<Rightarrow> string option"
  head_bucket_raises :: "s3_exception option"
  create_bucket_raises :: "string option"
  strftime :: string

text \<open>
  \<open>head_object\<close>: the exception the client raises, a 404 \<open>ClientError\<close> for a missing key,
  or the \<open>ContentLength\<close> entry of the response.
\<close>

definition head_object :: "env \<Rightarrow> world \<Rightarrow> string \<Rightarrow> s3_exception + int option" where
  "head_object e w key =
     (case head_object_raises e key of
        Some ex \<Rightarrow> Inl ex
      | None \<Rightarrow>
          (case objects w key of
             None \<Rightarrow> Inl (ClientError ''404'' ''An error occurred (404) when calling the HeadObject operation: Not Found'')
           | Some obj \<Rightarrow> Inr (ContentLength obj)))"

text \<open>\<open>int(head_response.headers.get('content-length', 0))\<close>.\<close>

definition content_length_int :: "header_text option \<Rightarrow> string + int" where
  "content_length_int h =
     (case h of
        None \<Rightarrow> Inr 0
      | Some (IntText n) \<Rightarrow> Inr n
      | Some (NonIntText msg) \<Rightarrow> Inl msg)"

text \<open>\<open>str\<close> of a natural number, in decimal.\<close>

fun str_nat :: "nat \<Rightarrow> string" where
  "str_nat n = (if n < 10 then [char_of (48 + n)] else str_nat (n div 10) @ [char_of (48 + n mod 10)])"

declare str_nat.simps [simp del]

subsection \<open>\<open>MLKArchiveDownloader\<close>\<close>

record downloader =
  max_workers :: int
  downloaded_count :: int
  failed_count :: int
  total_size :: int

text \<open>
  What a call of \<open>download_and_upload_file\<close> gives: the tuple
  \<open>(success, filename, error_message)\<close>, or an exception that leaves the method.
\<close>

datatype task_result = Returned bool string "string option" | Raised string

type_synonym state = "downloader \<times> world"

text \<open>The two outer handlers: \<open>except requests.RequestException\<close> and \<open>except Exception\<close>.\<close>

definition download_error :: "string \<Rightarrow> string \<Rightarrow> state \<Rightarrow> task_result \<times> state" where
  "download_error filename msg = (\<lambda>(d, w).
     (Returned False filename (Some (''Download error: '' @ msg)),
      (d\<lparr>failed_count := failed_count d + 1\<rparr>, w)))"

definition upload_error :: "string \<Rightarrow> string \<Rightarrow> state \<Rightarrow> task_result \<times> state" where
  "upload_error filename msg = (\<lambda>(d, w).
     (Returned False filename (Some (''Upload error: '' @ msg)),
      (d\<lparr>failed_count := failed_count d + 1\<rparr>, w)))"

text \<open>The block from \<open># Download file\<close> to the final \<open>return True, filename, None\<close>.\<close>

definition download_and_store :: "env \<Rightarrow> string \<Rightarrow> string \<Rightarrow> string \<Rightarrow> state \<Rightarrow> task_result \<times> state" where
  "download_and_store e url filename s3_key = (\<lambda>(d, w).
     let w = w\<lparr>calls := calls w @ [GET url]\<rparr>
     in case session_get e url of
          GetRaises msg \<Rightarrow> download_error filename msg (d, w)
        | GetOk chunks \<Rightarrow>
            (let buffer = concat chunks;
                 buffer_size = length buffer
             in case upload_fileobj_raises e s3_key of
                  Some msg \<Rightarrow> upload_error filename msg (d, w)
                | None \<Rightarrow>
                    (let obj = \<lparr>Body = buffer,
                               ContentLength = Some (int buffer_size),
                               ContentType = get_content_type filename,
                               Metadata = [(''source_url'', url),
                                           (''download_date'', strftime e),
                                           (''content_length'', str_nat buffer_size)]\<rparr>;
                         w = w\<lparr>objects := (objects w)(s3_key \<mapsto> obj),
                                calls := calls w @ [Uploaded s3_key obj]\<rparr>;
                         d = d\<lparr>downloaded_count := downloaded_count d + 1\<rparr>;
                         d = d\<lparr>total_size := total_size d + int buffer_size\<rparr>
                     in (Returned True filename None, (d, w)))))"

definition download_and_upload_file :: "env \<Rightarrow> string \<Rightarrow> string \<Rightarrow> state \<Rightarrow> task_result \<times> state" where
  "download_and_upload_file e url s3_key_prefix = (\<lambda>(d, w).
     case urlparse_path e url of
       None \<Rightarrow> (Raised ''UnboundLocalError'', (d, w))
     | Some path \<Rightarrow>
         (let filename = basename path;
              s3_key = s3_key_prefix @ filename;
              w = w\<lparr>calls := calls w @ [HEAD url]\<rparr>
          in case session_head e url of
               HeadRaises msg \<Rightarrow>
                 (Returned False filename
                    (Some (''Failed to fetch headers for '' @ filename @ '': '' @ msg)),
                  (d\<lparr>failed_count := failed_count d + 1\<rparr>, w))
             | HeadOk content_length \<Rightarrow>
                 (case content_length_int content_length of
                    Inl msg \<Rightarrow> upload_error filename msg (d, w)
                  | Inr remote_size \<Rightarrow>
                      (let w = w\<lparr>calls := calls w @ [HeadObject s3_key]\<rparr>
                       in case head_object e w s3_key of
                            Inr obj \<Rightarrow>
                              (let s3_size = (case obj of Some n \<Rightarrow> n | None \<Rightarrow> - 1)
                               in if s3_size = remote_size
                                  then (Returned True filename (Some ''Already exists and matches size''),
                                        (d, w))
                                  else download_and_store e url filename s3_key (d, w))
                          | Inl (ClientError code msg) \<Rightarrow>
                              (if code \<noteq> ''404'' then upload_error filename msg (d, w)
                               else download_and_store e url filename s3_key (d, w))
                          | Inl (OtherError msg) \<Rightarrow> upload_error filename msg (d, w)))))"

text \<open>
  Reading the URL file: the lines of the text (a line ends at \<open>\n\<close>, \<open>\r\<close> or \<open>\r\n\<close>),
  stripped, without the blank ones.
\<close>

fun splitlines :: "string \<Rightarrow> string list" where
  "splitlines [] = [[]]"
| "splitlines (c # cs) =
     (if c = LF \<or> c = CR then [] # splitlines cs
      else (case splitlines cs of
              x # xs \<Rightarrow> (c # x) # xs
            | [] \<Rightarrow> [[c]]))"

definition read_urls :: "string \<Rightarrow> string list" where
  "read_urls text = map strip (filter (\<lambda>line. strip line \<noteq> []) (splitlines text))"

subsection \<open>The worker pool\<close>

text \<open>
  \<open>download_from_url_file\<close> submits one call of \<open>download_and_upload_file\<close> per URL to a
  \<open>ThreadPoolExecutor\<close>. The calls run in worker threads that share the downloader, the
  bucket and the web server, so a call is cut into steps at the points where it touches
  what is shared: each HTTP request, each call of the S3 client, each read of a counter and
  each store to a counter. The counters are not locked: \<open>self.downloaded_count += 1\<close> reads
  the counter and later stores the value read plus one, and other threads may run in between.
  What a call does between two such points is local to it.

  A \<open>task\<close> is a call with the point it has reached and the local variables that the rest
  of the call uses: \<open>url\<close>, \<open>filename\<close>, \<open>s3_key\<close>, \<open>remote_size\<close>, the buffer or its size,
  the error message, and the value read from a counter.
\<close>

datatype task =
    Submitted string
  | AtHead string string string
  | AtHeadObject string string string int
  | AtGet string string string
  | AtUpload string string string "byte list"
  | AtDownloadedCount string nat
  | AtDownloadedCountStore string nat int
  | AtTotalSize string nat
  | AtTotalSizeStore string nat int
  | AtFailedCount string string
  | AtFailedCountStore string string int
  | Finished task_result

text \<open>
  One step of a task, path by path as in \<open>download_and_upload_file\<close>: \<open>urlparse\<close> and
  \<open>basename\<close> (local), the HEAD request, \<open>head_object\<close>, the GET request with the reading
  of the body, \<open>upload_fileobj\<close>, then the read and the store of \<open>downloaded_count\<close> and of
  \<open>total_size\<close>; on a failure, the read and the store of \<open>failed_count\<close>. A finished task
  stays as it is.
\<close>

fun task_step :: "env \<Rightarrow> string \<Rightarrow> task \<Rightarrow> state \<Rightarrow> task \<times> state" where
  "task_step e s3_key_prefix (Submitted url) (d, w) =
     (case urlparse_path e url of
        None \<Rightarrow> (Finished (Raised ''UnboundLocalError''), (d, w))
      | Some path \<Rightarrow> (AtHead url (basename path) (s3_key_prefix @ basename path), (d, w)))"
| "task_step e s3_key_prefix (AtHead url filename s3_key) (d, w) =
     (let w = w\<lparr>calls := calls w @ [HEAD url]\<rparr>
      in case session_head e url of
           HeadRaises msg \<Rightarrow>
             (AtFailedCount filename (''Failed to fetch headers for '' @ filename @ '': '' @ msg), (d, w))
         | HeadOk content_length \<Rightarrow>
             (case content_length_int content_length of
                Inl msg \<Rightarrow> (AtFailedCount filename (''Upload error: '' @ msg), (d, w))
              | Inr remote_size \<Rightarrow> (AtHeadObject url filename s3_key remote_size, (d, w))))"
| "task_step e s3_key_prefix (AtHeadObject url filename s3_key remote_size) (d, w) =
     (let w = w\<lparr>calls := calls w @ [HeadObject s3_key]\<rparr>
      in case head_object e w s3_key of
           Inr obj \<Rightarrow>
             (let s3_size = (case obj of Some n \<Rightarrow> n | None \<Rightarrow> - 1)
              in if s3_size = remote_size
                 then (Finished (Returned True filename (Some ''Already exists and matches size'')), (d, w))
                 else (AtGet url filename s3_key, (d, w)))
         | Inl (ClientError code msg) \<Rightarrow>
             (if code \<noteq> ''404'' then (AtFailedCount filename (''Upload error: '' @ msg), (d, w))
              else (AtGet url filename s3_key, (d, w)))
         | Inl (OtherError msg) \<Rightarrow> (AtFailedCount filename (''Upload error: '' @ msg), (d, w)))"
| "task_step e s3_key_prefix (AtGet url filename s3_key) (d, w) =
     (let w = w\<lparr>calls := calls w @ [GET url]\<rparr>
      in case session_get e url of
           GetRaises msg \<Rightarrow> (AtFailedCount filename (''Download error: '' @ msg), (d, w))
         | GetOk chunks \<Rightarrow> (AtUpload url filename s3_key (concat chunks), (d, w)))"
| "task_step e s3_key_prefix (AtUpload url filename s3_key buffer) (d, w) =
     (let buffer_size = length buffer
      in case upload_fileobj_raises e s3_key of
           Some msg \<Rightarrow> (AtFailedCount filename (''Upload error: '' @ msg), (d, w))
         | None \<Rightarrow>
             (let obj = \<lparr>Body = buffer,
                        ContentLength = Some (int buffer_size),
                        ContentType = get_content_type filename,
                        Metadata = [(''source_url'', url),
                                    (''download_date'', strftime e),
                                    (''content_length'', str_nat buffer_size)]\<rparr>;
                  w = w\<lparr>objects := (objects w)(s3_key \<mapsto> obj),
                         calls := calls w @ [Uploaded s3_key obj]\<rparr>
              in (AtDownloadedCount filename buffer_size, (d, w))))"
| "task_step e s3_key_prefix (AtDownloadedCount filename buffer_size) (d, w) =
     (AtDownloadedCountStore filename buffer_size (downloaded_count d), (d, w))"
| "task_step e s3_key_prefix (AtDownloadedCountStore filename buffer_size v) (d, w) =
     (AtTotalSize filename buffer_size, (d\<lparr>downloaded_count := v + 1\<rparr>, w))"
| "task_step e s3_key_prefix (AtTotalSize filename buffer_size) (d, w) =
     (AtTotalSizeStore filename buffer_size (total_size d), (d, w))"
| "task_step e s3_key_prefix (AtTotalSizeStore filename buffer_size v) (d, w) =
     (Finished (Returned True filename None), (d\<lparr>total_size := v + int buffer_size\<rparr>, w))"
| "task_step e s3_key_prefix (AtFailedCount filename error_msg) (d, w) =
     (AtFailedCountStore filename error_msg (failed_count d), (d, w))"
| "task_step e s3_key_prefix (AtFailedCountStore filename error_msg v) (d, w) =
     (Finished (Returned False filename (Some error_msg)), (d\<lparr>failed_count := v + 1\<rparr>, w))"
| "task_step e s3_key_prefix (Finished r) (d, w) = (Finished r, (d, w))"

fun finished :: "task \<Rightarrow> bool" where
  "finished (Finished r) = True"
| "finished t = False"

fun submitted :: "task \<Rightarrow> bool" where
  "submitted (Submitted url) = True"
| "submitted t = False"

definition running :: "task \<Rightarrow> bool" where
  "running t = (\<not> submitted t \<and> \<not> finished t)"

text \<open>
  The executor takes the submitted calls in the order of submission and runs at most
  \<open>max_workers\<close> of them at a time: a call may start when fewer than \<open>max_workers\<close> calls
  are running and every call submitted before it has started; a running call may always
  take its next step. Which of the calls that may move does so is not determined.
\<close>

definition may_run :: "task list \<Rightarrow> nat \<Rightarrow> state \<Rightarrow> bool" where
  "may_run tasks i s =
     (if submitted (tasks ! i)
      then int (length (filter running tasks)) < max_workers (fst s)
           \<and> list_all (\<lambda>t. \<not> submitted t) (take i tasks)
      else \<not> finished (tasks ! i))"

inductive pool_step :: "env \<Rightarrow> task list \<times> state \<Rightarrow> task list \<times> state \<Rightarrow> bool" for e where
  "i < length tasks \<Longrightarrow> may_run tasks i s \<Longrightarrow>
   task_step e ''mlk-archive/'' (tasks ! i) s = (t', s') \<Longrightarrow>
   pool_step e (tasks, s) (tasks[i := t'], s')"

text \<open>
  \<open>head_bucket\<close>, and \<open>create_bucket\<close> when it raises a \<open>ClientError\<close>: the message of the
  exception that leaves this part of the method, if any.
\<close>

definition bucket_ready :: "env \<Rightarrow> string option" where
  "bucket_ready e =
     (case head_bucket_raises e of
        None \<Rightarrow> None
      | Some (ClientError code msg) \<Rightarrow> create_bucket_raises e
      | Some (OtherError msg) \<Rightarrow> Some msg)"

text \<open>
  \<open>download_from_url_file\<close>, as a relation between the state at the call and an outcome,
  since the interleaving of the workers is not determined: the exception that leaves the
  method (opening the file, preparing the bucket, or \<open>ThreadPoolExecutor\<close> refusing
  \<open>max_workers \<le> 0\<close>), or the state when the \<open>with\<close> block is left, which waits until
  every call has finished. The loop over \<open>as_completed\<close> and the summary only log.
\<close>

definition download_from_url_file :: "env \<Rightarrow> filesystem \<Rightarrow> string \<Rightarrow> state \<Rightarrow> string + state \<Rightarrow> bool" where
  "download_from_url_file e fs url_file_path s out =
     (case fs url_file_path of
        None \<Rightarrow> out = Inl ''FileNotFoundError''
      | Some text \<Rightarrow>
          (case bucket_ready e of
             Some msg \<Rightarrow> out = Inl msg
           | None \<Rightarrow>
               if max_workers (fst s) \<le> 0 then out = Inl ''max_workers must be greater than 0''
               else \<exists>tasks s'. rtranclp (pool_step e) (map Submitted (read_urls text), s) (tasks, s')
                      \<and> list_all finished tasks \<and> out = Inr s'))"

section \<open>The scraper: reading the page\<close>

subsection \<open>The parsed page\<close>

text \<open>
  The tree that \<open>BeautifulSoup\<close> builds: text, and tags with a name, attributes (a
  dictionary) and contents. The soup itself is a tag.
\<close>

datatype node = NavigableString string | Tag string "(string \<times> string) list" "node list"

text \<open>All nodes below a node, in document order.\<close>

fun descendants :: "node \<Rightarrow> node list" where
  "descendants (NavigableString s) = []"
| "descendants (Tag name attrs contents) = concat (map (\<lambda>c. c # descendants c) contents)"

fun is_tag :: "string list \<Rightarrow> node \<Rightarrow> bool" where
  "is_tag names (NavigableString s) = False"
| "is_tag names (Tag name attrs contents) = (name \<in> set names)"

text \<open>\<open>tag[key]\<close>: \<open>None\<close> stands for the \<open>KeyError\<close>.\<close>

fun getitem :: "node \<Rightarrow> string \<Rightarrow> string option" where
  "getitem (NavigableString s) key = None"
| "getitem (Tag name attrs contents) key = map_of attrs key"

text \<open>\<open>find_all(names)\<close>, \<open>find_all('a', href=True)\<close> and \<open>find('a', href=True)\<close>.\<close>

definition find_all :: "string list \<Rightarrow> node \<Rightarrow> node list" where
  "find_all names n = filter (is_tag names) (descendants n)"

definition find_all_a_href :: "node \<Rightarrow> node list" where
  "find_all_a_href n = filter (\<lambda>d. is_tag [''a''] d \<and> getitem d ''href'' \<noteq> None) (descendants n)"

definition find_a_href :: "node \<Rightarrow> node option" where
  "find_a_href n = (case find_all_a_href n of [] \<Rightarrow> None | link # rest \<Rightarrow> Some link)"

fun node_text :: "node \<Rightarrow> string" where
  "node_text (NavigableString s) = s"
| "node_text (Tag name attrs contents) = []"

fun get_text :: "node \<Rightarrow> string" where
  "get_text (NavigableString s) = s"
| "get_text (Tag name attrs contents) = concat (map node_text (descendants (Tag name attrs contents)))"

subsection \<open>\<open>scrape_mlk_records\<close>\<close>

text \<open>
  What \<open>session.get\<close>, \<open>raise_for_status\<close> and the parser give: a
  \<open>requests.RequestException\<close>, another exception, or the soup.
\<close>

datatype fetch_outcome = RequestException string | ParserException string | Soup node

text \<open>
  The environment of the scraper: the page, and \<open>urljoin\<close> and the path component of
  \<open>urlparse\<close>, each \<open>None\<close> where it raises \<open>ValueError\<close>.
\<close>

record scrape_env =
  session_get_page :: fetch_outcome
  urljoin :: "string \<Rightarrow> string \<Rightarrow> string option"
  urlparse_path_of :: "string \<Rightarrow> string option"

definition base_url :: string where
  "base_url = ''https://www.archives.gov''"

text \<open>The first loop over the tables: the one with the two headers.\<close>

fun find_records_table :: "node list \<Rightarrow> node option" where
  "find_records_table [] = None"
| "find_records_table (t # tables) =
     (let headers = find_all [''th''] t
      in if length headers \<ge> 2 then
           (let header_text = map (\<lambda>th. strip (get_text th)) headers
            in if ''Record Number'' \<in> set header_text \<and> ''NARA Release Date'' \<in> set header_text
               then Some t
               else find_records_table tables)
         else find_records_table tables)"

text \<open>The second loop: any table with many PDF links.\<close>

definition table_pdf_links :: "node \<Rightarrow> node list" where
  "table_pdf_links t =
     filter (\<lambda>link. case getitem link ''href'' of
                       Some href \<Rightarrow> contains ''.pdf'' (lower href)
                     | None \<Rightarrow> False)
            (find_all_a_href t)"

fun find_pdf_table :: "node list \<Rightarrow> node option" where
  "find_pdf_table [] = None"
| "find_pdf_table (t # tables) =
     (let pdf_links = table_pdf_links t
      in if length pdf_links > 10 then Some t else find_pdf_table tables)"

text \<open>
  The fallback loop over all links of the page. \<open>None\<close> is an exception raised in the
  loop.
\<close>

fun collect_links :: "scrape_env \<Rightarrow> node list \<Rightarrow> mlk_record list \<Rightarrow> mlk_record list option" where
  "collect_links e [] pdf_links = Some pdf_links"
| "collect_links e (link # all_links) pdf_links =
     (case getitem link ''href'' of
        None \<Rightarrow> None
      | Some href \<Rightarrow>
          if contains ''.pdf'' (lower href) \<or> contains ''.mp3'' (lower href) then
            (case urljoin e base_url href of
               None \<Rightarrow> None
             | Some full_url \<Rightarrow>
                 (case (if strip (get_text link) \<noteq> [] then Some (strip (get_text link))
                        else map_option basename (urlparse_path_of e href)) of
                    None \<Rightarrow> None
                  | Some filename \<Rightarrow>
                      collect_links e all_links
                        (pdf_links @ [\<lparr>rec_filename = filename, rec_url = full_url,
                                       rec_release_date = ''Unknown''\<rparr>])))
          else collect_links e all_links pdf_links)"

text \<open>The loop over the rows of the table.\<close>

fun extract_rows :: "scrape_env \<Rightarrow> node list \<Rightarrow> mlk_record list \<Rightarrow> mlk_record list option" where
  "extract_rows e [] records = Some records"
| "extract_rows e (row # rows) records =
     (let cells = find_all [''td'', ''th''] row
      in if length cells \<ge> 2 then
           (let first_cell = cells ! 0
            in case find_a_href first_cell of
                 None \<Rightarrow> extract_rows e rows records
               | Some link \<Rightarrow>
                   (case getitem link ''href'' of
                      None \<Rightarrow> None
                    | Some href \<Rightarrow>
                        (case urljoin e base_url href of
                           None \<Rightarrow> None
                         | Some full_url \<Rightarrow>
                             (let filename = strip (get_text link);
                                  release_date = (if length cells > 1 then strip (get_text (cells ! 1))
                                                  else ''Unknown'')
                              in extract_rows e rows
                                   (records @ [\<lparr>rec_filename = filename, rec_url = full_url,
                                                rec_release_date = release_date\<rparr>])))))
         else extract_rows e rows records)"

text \<open>The body of the \<open>try\<close> block after the page is parsed.\<close>

definition scrape_page :: "scrape_env \<Rightarrow> node \<Rightarrow> mlk_record list option" where
  "scrape_page e soup =
     (let tables = find_all [''table''] soup;
          table = find_records_table tables;
          table = (if table = None then find_pdf_table tables else table)
      in case table of
           None \<Rightarrow>
             (case collect_links e (find_all_a_href soup) [] of
                None \<Rightarrow> None
              | Some pdf_links \<Rightarrow> if pdf_links \<noteq> [] then Some pdf_links else Some [])
         | Some t \<Rightarrow> extract_rows e (drop 1 (find_all [''tr''] t)) [])"

definition scrape_mlk_records :: "scrape_env \<Rightarrow> mlk_record list" where
  "scrape_mlk_records e =
     (case session_get_page e of
        RequestException msg \<Rightarrow> []
      | ParserException msg \<Rightarrow> []
      | Soup soup \<Rightarrow>
          (case scrape_page e soup of
             None \<Rightarrow> []
           | Some records \<Rightarrow> records))"

section \<open>Notions used to state the properties\<close>

text \<open>All objects of a listing, page after page.\<close>

definition listed_objects :: "page list \<Rightarrow> listed_object list" where
  "listed_objects pages =
     concat (map (\<lambda>page. case page of Some contents \<Rightarrow> contents | None \<Rightarrow> []) pages)"

fun is_uploaded :: "task_result \<Rightarrow> bool" where
  "is_uploaded (Returned success filename msg) = (success \<and> msg = None)"
| "is_uploaded (Raised ex) = False"

fun is_skipped :: "task_result \<Rightarrow> bool" where
  "is_skipped (Returned success filename msg) = (success \<and> msg = Some ''Already exists and matches size'')"
| "is_skipped (Raised ex) = False"

fun is_failed :: "task_result \<Rightarrow> bool" where
  "is_failed (Returned success filename msg) = (\<not> success)"
| "is_failed (Raised ex) = False"

fun event_bytes :: "event \<Rightarrow> int" where
  "event_bytes (Uploaded key obj) = int (length (Body obj))"
| "event_bytes ev = 0"

definition uploaded_bytes :: "event list \<Rightarrow> int" where
  "uploaded_bytes evs = sum_list (map event_bytes evs)"

definition stored_object :: "env \<Rightarrow> string \<Rightarrow> string \<Rightarrow> byte list \<Rightarrow> s3_object" where
  "stored_object e url filename body =
     \<lparr>Body = body, ContentLength = Some (int (length body)),
      ContentType = get_content_type filename,
      Metadata = [(''source_url'', url), (''download_date'', strftime e),
                  (''content_length'', str_nat (length body))]\<rparr>"

definition new_calls :: "world \<Rightarrow> world \<Rightarrow> event list" where
  "new_calls w w' = drop (length (calls w)) (calls w')"

text \<open>
  What one run of the method does: it extends the trace, counts itself as uploaded or
  failed, and adds the size of what it uploaded.
\<close>

definition step_ok :: "env \<Rightarrow> string \<Rightarrow> string \<Rightarrow> string \<Rightarrow> state \<Rightarrow> task_result \<times> state \<Rightarrow> bool" where
  "step_ok e url filename s3_key s rs =
     (case s of (d, w) \<Rightarrow> case rs of (r, (d', w')) \<Rightarrow>
        (\<exists>new. calls w' = calls w @ new
           \<and> total_size d' = total_size d + uploaded_bytes new
           \<and> (\<forall>k obj. Uploaded k obj \<in> set new \<longrightarrow>
                 k = s3_key \<and> objects w' k = Some obj
                 \<and> (\<exists>chunks. session_get e url = GetOk chunks
                       \<and> obj = stored_object e url filename (concat chunks))))
        \<and> downloaded_count d' = downloaded_count d + (if is_uploaded r then 1 else 0)
        \<and> failed_count d' = failed_count d + (if is_failed r then 1 else 0)
        \<and> max_workers d' = max_workers d
        \<and> (case r of
              Returned success f msg \<Rightarrow>
                f = filename \<and> (is_uploaded r \<or> is_failed r \<or> is_skipped r)
                  \<and> \<not> (is_uploaded r \<and> is_skipped r)
            | Raised ex \<Rightarrow> False))"


definition header_texts :: "node \<Rightarrow> string list" where
  "header_texts t = map (\<lambda>th. strip (get_text th)) (find_all [''th''] t)"

definition has_record_headers :: "node \<Rightarrow> bool" where
  "has_record_headers t =
     (''Record Number'' \<in> set (header_texts t) \<and> ''NARA Release Date'' \<in> set (header_texts t))"

definition href_contains :: "string \<Rightarrow> node \<Rightarrow> bool" where
  "href_contains ext link =
     (case getitem link ''href'' of Some href \<Rightarrow> contains ext (lower href) | None \<Rightarrow> False)"

definition is_document_link :: "node \<Rightarrow> bool" where
  "is_document_link link = (href_contains ''.pdf'' link \<or> href_contains ''.mp3'' link)"

definition spec_select_table :: "node \<Rightarrow> node option" where
  "spec_select_table soup =
     (let tables = find_all [''table''] soup
      in case find has_record_headers tables of
           Some t \<Rightarrow> Some t
         | None \<Rightarrow> find (\<lambda>t. 10 < length (filter (href_contains ''.pdf'') (find_all_a_href t))) tables)"

definition link_record :: "scrape_env \<Rightarrow> node \<Rightarrow> mlk_record option" where
  "link_record e link =
     (case getitem link ''href'' of
        None \<Rightarrow> None
      | Some href \<Rightarrow>
          (case urljoin e base_url href of
             None \<Rightarrow> None
           | Some full_url \<Rightarrow>
               (case (if strip (get_text link) \<noteq> [] then Some (strip (get_text link))
                      else map_option basename (urlparse_path_of e href)) of
                  None \<Rightarrow> None
                | Some filename \<Rightarrow>
                    Some \<lparr>rec_filename = filename, rec_url = full_url,
                          rec_release_date = ''Unknown''\<rparr>)))"

definition spec_page_links :: "scrape_env \<Rightarrow> node \<Rightarrow> mlk_record list option" where
  "spec_page_links e soup =
     those (map (link_record e) (filter is_document_link (find_all_a_href soup)))"

definition url_of_link :: "scrape_env \<Rightarrow> mlk_record \<Rightarrow> node \<Rightarrow> bool" where
  "url_of_link e r link =
     (case getitem link ''href'' of
        Some href \<Rightarrow> urljoin e base_url href = Some (rec_url r)
      | None \<Rightarrow> False)"

text \<open>The number that a string of decimal digits denotes.\<close>

fun nat_of_digits :: "string \<Rightarrow> nat" where
  "nat_of_digits [] = 0"
| "nat_of_digits (c # cs) = (of_char c - 48) * 10 ^ length cs + nat_of_digits cs"

text \<open>
  The number of uploads in a trace.
\<close>

fun is_upload_event :: "event \<Rightarrow> bool" where
  "is_upload_event (Uploaded key obj) = True"
| "is_upload_event ev = False"

definition count_uploads :: "event list \<Rightarrow> nat" where
  "count_uploads evs = length (filter is_upload_event evs)"







text \<open>A task run alone for a number of steps, and a pool run along a schedule, which names step by step the task that moves.\<close>

fun run_task :: "nat \<Rightarrow> env \<Rightarrow> string \<Rightarrow> task \<Rightarrow> state \<Rightarrow> task \<times> state" where
  "run_task 0 e p t s = (t, s)"
| "run_task (Suc n) e p t s = (case task_step e p t s of (t', s') \<Rightarrow> run_task n e p t' s')"

fun run_schedule :: "env \<Rightarrow> nat list \<Rightarrow> task list \<times> state \<Rightarrow> (task list \<times> state) option" where
  "run_schedule e [] c = Some c"
| "run_schedule e (i # schedule) (tasks, s) =
     (if i < length tasks \<and> may_run tasks i s
      then (case task_step e ''mlk-archive/'' (tasks ! i) s of
              (t', s') \<Rightarrow> run_schedule e schedule (tasks[i := t'], s'))
      else None)"

text \<open>
  The bookkeeping of a run. A task between its upload and its store to a counter still owes
  that counter its update: \<open>pending_count\<close> and \<open>pending_size\<close>. The value of a counter as a
  task sees it is the value it has read and not yet stored, or else the counter itself:
  \<open>seen_count\<close>, \<open>seen_size\<close>, \<open>seen_failed\<close>. \<open>has_uploaded\<close> and \<open>has_failed\<close> tell
  whether a task has uploaded, and whether it has finished as a failure.
\<close>

fun pending_count :: "task \<Rightarrow> int" where
  "pending_count (AtDownloadedCount filename n) = 1"
| "pending_count (AtDownloadedCountStore filename n v) = 1"
| "pending_count t = 0"

fun pending_size :: "task \<Rightarrow> int" where
  "pending_size (AtDownloadedCount filename n) = int n"
| "pending_size (AtDownloadedCountStore filename n v) = int n"
| "pending_size (AtTotalSize filename n) = int n"
| "pending_size (AtTotalSizeStore filename n v) = int n"
| "pending_size t = 0"

fun seen_count :: "downloader \<Rightarrow> task \<Rightarrow> int" where
  "seen_count d (AtDownloadedCountStore filename n v) = v"
| "seen_count d t = downloaded_count d"

fun seen_size :: "downloader \<Rightarrow> task \<Rightarrow> int" where
  "seen_size d (AtTotalSizeStore filename n v) = v"
| "seen_size d t = total_size d"

fun seen_failed :: "downloader \<Rightarrow> task \<Rightarrow> int" where
  "seen_failed d (AtFailedCountStore filename m v) = v"
| "seen_failed d t = failed_count d"

fun has_uploaded :: "task \<Rightarrow> int" where
  "has_uploaded (AtDownloadedCount filename n) = 1"
| "has_uploaded (AtDownloadedCountStore filename n v) = 1"
| "has_uploaded (AtTotalSize filename n) = 1"
| "has_uploaded (AtTotalSizeStore filename n v) = 1"
| "has_uploaded (Finished r) = (if is_uploaded r then 1 else 0)"
| "has_uploaded t = 0"

fun has_failed :: "task \<Rightarrow> int" where
  "has_failed (Finished r) = (if is_failed r then 1 else 0)"
| "has_failed t = 0"






text \<open>
  Reading a CSV file back, as RFC 4180 has it: a row ends with \<open>\r\n\<close>, its fields are
  separated by commas, and a field is either quoted, with each quote inside it doubled, or
  holds no comma, quote, \<open>\r\<close> or \<open>\n\<close>. The scan keeps the field and the row it is
  reading and the rows read so far; text that is no such file gives \<open>None\<close>.
\<close>

datatype csv_state = StartField | InField | InQuoted | QuoteSeen | CRSeen

fun csv_scan :: "csv_state \<Rightarrow> string \<Rightarrow> string list \<Rightarrow> string list list \<Rightarrow> string
                   \<Rightarrow> string list list option" where
  "csv_scan st field row rows [] = (if st = StartField \<and> row = [] then Some rows else None)"
| "csv_scan StartField field row rows (c # cs) =
     (if c = DQUOTE then csv_scan InQuoted [] row rows cs
      else if c = CHR '','' then csv_scan StartField [] (row @ [[]]) rows cs
      else if c = CR then csv_scan CRSeen [] (row @ [[]]) rows cs
      else if c = LF then None
      else csv_scan InField [c] row rows cs)"
| "csv_scan InField field row rows (c # cs) =
     (if c = DQUOTE then None
      else if c = CHR '','' then csv_scan StartField [] (row @ [field]) rows cs
      else if c = CR then csv_scan CRSeen [] (row @ [field]) rows cs
      else if c = LF then None
      else csv_scan InField (field @ [c]) row rows cs)"
| "csv_scan InQuoted field row rows (c # cs) =
     (if c = DQUOTE then csv_scan QuoteSeen field row rows cs
      else csv_scan InQuoted (field @ [c]) row rows cs)"
| "csv_scan QuoteSeen field row rows (c # cs) =
     (if c = DQUOTE then csv_scan InQuoted (field @ [DQUOTE]) row rows cs
      else if c = CHR '','' then csv_scan StartField [] (row @ [field]) rows cs
      else if c = CR then csv_scan CRSeen [] (row @ [field]) rows cs
      else None)"
| "csv_scan CRSeen field row rows (c # cs) =
     (if c = LF then csv_scan StartField [] [] (rows @ [row]) cs else None)"

definition csv_rows :: "string \<Rightarrow> string list list option" where
  "csv_rows text = csv_scan StartField [] [] [] text"

text \<open>
  Reading a JSON file back, as RFC 8259 has it, for the documents that are an array of
  objects whose values are strings: the tokens, with the escapes of a string decoded
  (a \<open>\u\<close> escape must name a code point below 256), and then the array. Anything else
  gives \<open>None\<close>.
\<close>

datatype json_token = LBracket | RBracket | LBrace | RBrace | Comma | Colon | Str string

datatype lex_state = Between | InStr | Esc | Hex nat nat

definition hex_value :: "char \<Rightarrow> nat option" where
  "hex_value c =
     (let n = (of_char c :: nat)
      in if 48 \<le> n \<and> n \<le> 57 then Some (n - 48)
         else if 97 \<le> n \<and> n \<le> 102 then Some (n - 87)
         else if 65 \<le> n \<and> n \<le> 70 then Some (n - 55)
         else None)"

fun json_lex :: "lex_state \<Rightarrow> string \<Rightarrow> json_token list \<Rightarrow> string \<Rightarrow> json_token list option" where
  "json_lex st acc toks [] = (if st = Between then Some toks else None)"
| "json_lex Between acc toks (c # cs) =
     (if c = CHR '' '' \<or> c = LF \<or> c = CR \<or> c = CHR 0x09 then json_lex Between [] toks cs
      else if c = CHR ''['' then json_lex Between [] (toks @ [LBracket]) cs
      else if c = CHR '']'' then json_lex Between [] (toks @ [RBracket]) cs
      else if c = CHR ''{'' then json_lex Between [] (toks @ [LBrace]) cs
      else if c = CHR ''}'' then json_lex Between [] (toks @ [RBrace]) cs
      else if c = CHR '','' then json_lex Between [] (toks @ [Comma]) cs
      else if c = CHR '':'' then json_lex Between [] (toks @ [Colon]) cs
      else if c = DQUOTE then json_lex InStr [] toks cs
      else None)"
| "json_lex InStr acc toks (c # cs) =
     (if c = DQUOTE then json_lex Between [] (toks @ [Str acc]) cs
      else if c = BACKSLASH then json_lex Esc acc toks cs
      else if (of_char c :: nat) < 32 then None
      else json_lex InStr (acc @ [c]) toks cs)"
| "json_lex Esc acc toks (c # cs) =
     (if c = DQUOTE \<or> c = BACKSLASH \<or> c = CHR ''/'' then json_lex InStr (acc @ [c]) toks cs
      else if c = CHR ''b'' then json_lex InStr (acc @ [CHR 0x08]) toks cs
      else if c = CHR ''f'' then json_lex InStr (acc @ [CHR 0x0C]) toks cs
      else if c = CHR ''n'' then json_lex InStr (acc @ [LF]) toks cs
      else if c = CHR ''r'' then json_lex InStr (acc @ [CR]) toks cs
      else if c = CHR ''t'' then json_lex InStr (acc @ [CHR 0x09]) toks cs
      else if c = CHR ''u'' then json_lex (Hex 0 0) acc toks cs
      else None)"
| "json_lex (Hex v k) acc toks (c # cs) =
     (case hex_value c of
        None \<Rightarrow> None
      | Some h \<Rightarrow>
          if k < 3 then json_lex (Hex (16 * v + h) (Suc k)) acc toks cs
          else if 16 * v + h < 256 then json_lex InStr (acc @ [char_of (16 * v + h)]) toks cs
          else None)"

datatype json_position =
    ExpectArray | ExpectFirstObject | ExpectObject | ExpectFirstKey | ExpectKey
  | ExpectColon string | ExpectValue string | ExpectMemberEnd | ExpectObjectEnd | ExpectEnd

fun json_parse :: "json_position \<Rightarrow> (string \<times> string) list \<Rightarrow> (string \<times> string) list list
                     \<Rightarrow> json_token list \<Rightarrow> (string \<times> string) list list option" where
  "json_parse p members objs [] = (if p = ExpectEnd then Some objs else None)"
| "json_parse ExpectArray members objs (t # ts) =
     (if t = LBracket then json_parse ExpectFirstObject [] objs ts else None)"
| "json_parse ExpectFirstObject members objs (t # ts) =
     (if t = RBracket then json_parse ExpectEnd [] objs ts
      else if t = LBrace then json_parse ExpectFirstKey [] objs ts
      else None)"
| "json_parse ExpectObject members objs (t # ts) =
     (if t = LBrace then json_parse ExpectFirstKey [] objs ts else None)"
| "json_parse ExpectFirstKey members objs (t # ts) =
     (case t of
        Str k \<Rightarrow> json_parse (ExpectColon k) members objs ts
      | RBrace \<Rightarrow> json_parse ExpectObjectEnd [] (objs @ [members]) ts
      | _ \<Rightarrow> None)"
| "json_parse ExpectKey members objs (t # ts) =
     (case t of Str k \<Rightarrow> json_parse (ExpectColon k) members objs ts | _ \<Rightarrow> None)"
| "json_parse (ExpectColon k) members objs (t # ts) =
     (if t = Colon then json_parse (ExpectValue k) members objs ts else None)"
| "json_parse (ExpectValue k) members objs (t # ts) =
     (case t of Str v \<Rightarrow> json_parse ExpectMemberEnd (members @ [(k, v)]) objs ts | _ \<Rightarrow> None)"
| "json_parse ExpectMemberEnd members objs (t # ts) =
     (if t = Comma then json_parse ExpectKey members objs ts
      else if t = RBrace then json_parse ExpectObjectEnd [] (objs @ [members]) ts
      else None)"
| "json_parse ExpectObjectEnd members objs (t # ts) =
     (if t = Comma then json_parse ExpectObject [] objs ts
      else if t = RBracket then json_parse ExpectEnd [] objs ts
      else None)"
| "json_parse ExpectEnd members objs (t # ts) = None"

definition json_loads :: "string \<Rightarrow> (string \<times> string) list list option" where
  "json_loads text =
     (case json_lex Between [] [] text of
        None \<Rightarrow> None
      | Some toks \<Rightarrow> json_parse ExpectArray [] [] toks)"

text \<open>The tokens of the file that \<open>json.dump\<close> writes.\<close>

definition record_tokens :: "mlk_record \<Rightarrow> json_token list" where
  "record_tokens r =
     [LBrace, Str ''filename'', Colon, Str (rec_filename r), Comma,
      Str ''url'', Colon, Str (rec_url r), Comma,
      Str ''release_date'', Colon, Str (rec_release_date r), RBrace]"

fun records_tokens :: "mlk_record list \<Rightarrow> json_token list" where
  "records_tokens [] = []"
| "records_tokens [r] = record_tokens r"
| "records_tokens (r # r' # rs) = record_tokens r @ Comma # records_tokens (r' # rs)"

section \<open>Example inputs\<close>

definition ex_url :: string where
  "ex_url = ''https://www.archives.gov/files/research/mlk/104-10001.pdf''"

definition ex_env :: env where
  "ex_env =
     \<lparr>urlparse_path = (\<lambda>url. Some (drop 24 url)),
      session_head = (\<lambda>url. HeadOk (Some (IntText 3))),
      session_get = (\<lambda>url. GetOk [[1, 2], [3]]),
      head_object_raises = (\<lambda>key. None),
      upload_fileobj_raises = (\<lambda>key. None),
      head_bucket_raises = None,
      create_bucket_raises = None,
      strftime = ''2025-07-22 13:38:07''\<rparr>"

definition ex_downloader :: downloader where
  "ex_downloader = \<lparr>max_workers = 5, downloaded_count = 0, failed_count = 0, total_size = 0\<rparr>"

definition ex_object :: s3_object where
  "ex_object = stored_object ex_env ex_url ''104-10001.pdf'' [1, 2, 3]"

definition ex_empty_world :: world where
  "ex_empty_world = \<lparr>objects = Map.empty, calls = []\<rparr>"

definition ex_stored_world :: world where
  "ex_stored_world = \<lparr>objects = [''mlk-archive/104-10001.pdf'' \<mapsto> ex_object], calls = []\<rparr>"


definition ex_link :: "string \<Rightarrow> string \<Rightarrow> node" where
  "ex_link href text = Tag ''a'' [(''href'', href)] [NavigableString text]"

definition ex_table :: node where
  "ex_table =
     Tag ''table'' []
       [Tag ''tr'' []
          [Tag ''th'' [] [NavigableString ''Record Number''],
           Tag ''th'' [] [NavigableString '' NARA Release Date '']],
        Tag ''tr'' []
          [Tag ''td'' [] [ex_link ''/files/research/mlk/104-10001.pdf'' ''104-10001''],
           Tag ''td'' [] [NavigableString ''07/21/2025'']]]"

definition ex_page :: node where
  "ex_page = Tag ''[document]'' [] [Tag ''html'' [] [Tag ''body'' [] [ex_table]]]"

definition ex_links_page :: node where
  "ex_links_page =
     Tag ''[document]'' []
       [Tag ''p'' [] [ex_link ''/files/tape.MP3'' [], ex_link ''/about.html'' ''About'']]"

definition ex_plain_page :: node where
  "ex_plain_page = Tag ''[document]'' [] [Tag ''p'' [] [ex_link ''/about.html'' ''About'']]"

definition ex_scrape_env :: "fetch_outcome \<Rightarrow> scrape_env" where
  "ex_scrape_env page =
     \<lparr>session_get_page = page,
      urljoin = (\<lambda>base href. Some (base @ href)),
      urlparse_path_of = (\<lambda>href. Some href)\<rparr>"

definition ex_broken_env :: scrape_env where
  "ex_broken_env =
     \<lparr>session_get_page = Soup ex_links_page,
      urljoin = (\<lambda>base href. None),
      urlparse_path_of = (\<lambda>href. Some href)\<rparr>"

definition ex_race_fs :: filesystem where
  "ex_race_fs = [''mlk_urls.txt'' \<mapsto> ex_url @ [LF] @ ex_url @ [LF]]"



definition ex_race_schedule :: "nat list" where
  "ex_race_schedule = [0, 1, 0, 1, 0, 1, 0, 1, 0, 1, 0, 1, 0, 1, 0, 1, 0, 1]"

definition ex_race_end :: state where
  "ex_race_end =
     (ex_downloader\<lparr>downloaded_count := 1, total_size := 3\<rparr>,
      \<lparr>objects = [''mlk-archive/104-10001.pdf'' \<mapsto> ex_object],
       calls = [HEAD ex_url, HEAD ex_url,
                HeadObject ''mlk-archive/104-10001.pdf'', HeadObject ''mlk-archive/104-10001.pdf'',
                GET ex_url, GET ex_url,
                Uploaded ''mlk-archive/104-10001.pdf'' ex_object,
                Uploaded ''mlk-archive/104-10001.pdf'' ex_object]\<rparr>)"

definition ex_records :: "mlk_record list" where
  "ex_records =
     [\<lparr>rec_filename = ''a,b '' @ [DQUOTE] @ ''c'' @ [DQUOTE],
       rec_url = ''https://www.archives.gov/files/a.pdf'',
       rec_release_date = ''07/21'' @ [LF] @ ''2025''\<rparr>,
      \<lparr>rec_filename = ''104-10001'',
       rec_url = ''https://www.archives.gov/files/b.pdf'',
       rec_release_date = ''07/21/2025''\<rparr>]"

definition ex_csv_text :: string where
  "ex_csv_text =
     ''filename,url,release_date'' @ [CR, LF]
     @ [DQUOTE] @ ''a,b '' @ [DQUOTE, DQUOTE] @ ''c'' @ [DQUOTE, DQUOTE, DQUOTE]
     @ '',https://www.archives.gov/files/a.pdf,''
     @ [DQUOTE] @ ''07/21'' @ [LF] @ ''2025'' @ [DQUOTE] @ [CR, LF]
     @ ''104-10001,https://www.archives.gov/files/b.pdf,07/21/2025'' @ [CR, LF]"

definition ex_json_text :: string where
  "ex_json_text =
     ''['' @ [LF]
     @ ''  {'' @ [LF]
     @ ''    '' @ [DQUOTE] @ ''filename'' @ [DQUOTE] @ '': ''
         @ [DQUOTE] @ ''a,b '' @ [BACKSLASH, DQUOTE] @ ''c'' @ [BACKSLASH, DQUOTE] @ [DQUOTE] @ '','' @ [LF]
     @ ''    '' @ [DQUOTE] @ ''url'' @ [DQUOTE] @ '': ''
         @ [DQUOTE] @ ''https://www.archives.gov/files/a.pdf'' @ [DQUOTE] @ '','' @ [LF]
     @ ''    '' @ [DQUOTE] @ ''release_date'' @ [DQUOTE] @ '': ''
         @ [DQUOTE] @ ''07/21'' @ [BACKSLASH] @ ''n2025'' @ [DQUOTE] @ [LF]
     @ ''  },'' @ [LF]
     @ ''  {'' @ [LF]
     @ ''    '' @ [DQUOTE] @ ''filename'' @ [DQUOTE] @ '': ''
         @ [DQUOTE] @ ''104-10001'' @ [DQUOTE] @ '','' @ [LF]
     @ ''    '' @ [DQUOTE] @ ''url'' @ [DQUOTE] @ '': ''
         @ [DQUOTE] @ ''https://www.archives.gov/files/b.pdf'' @ [DQUOTE] @ '','' @ [LF]
     @ ''    '' @ [DQUOTE] @ ''release_date'' @ [DQUOTE] @ '': ''
         @ [DQUOTE] @ ''07/21/2025'' @ [DQUOTE] @ [LF]
     @ ''  }'' @ [LF]
     @ '']''"

definition ex_urls_text :: string where
  "ex_urls_text =
     ''https://www.archives.gov/files/a.pdf'' @ [LF] @ ''https://www.archives.gov/files/b.pdf'' @ [LF]"

section \<open>Properties of the text functions\<close>

lemma splitext_scan_append:
  "fst (splitext_scan p d i) @ snd (splitext_scan p d i) = p"
  by (induction p d i rule: splitext_scan.induct) simp

lemma splitext_append: "fst (splitext p) @ snd (splitext p) = p"
  by (simp add: splitext_def Let_def splitext_scan_append del: splitext_scan.simps)

lemma rfind_from_notin: "c \<notin> set xs \<Longrightarrow> rfind_from xs c i found = found"
  by (induction xs arbitrary: i found) auto

lemma rfind_from_append:
  "rfind_from (xs @ ys) c i found = rfind_from ys c (i + int (length xs)) (rfind_from xs c i found)"
  by (induction xs arbitrary: i found) (auto simp: algebra_simps)

lemma rfind_from_upper: "found < i + int (length xs) \<Longrightarrow> rfind_from xs c i found < i + int (length xs)"
proof (induction xs arbitrary: i found)
  case Nil
  then show ?case by simp
next
  case (Cons x xs)
  have "rfind_from xs c (i + 1) (if x = c then i else found) < (i + 1) + int (length xs)"
    using Cons.prems by (intro Cons.IH) auto
  then show ?case by simp
qed

lemma rfind_from_lower: "found \<le> rfind_from xs c i found \<or> i \<le> rfind_from xs c i found"
proof (induction xs arbitrary: i found)
  case Nil
  then show ?case by simp
next
  case (Cons x xs)
  from Cons.IH[of "if x = c then i else found" "i + 1"] show ?case
    by (auto split: if_splits)
qed

lemma rfind_bounds: "- 1 \<le> rfind p c \<and> rfind p c < int (length p)"
  using rfind_from_upper[of "- 1" 0 p c] rfind_from_lower[of "- 1" p c 0]
  by (auto simp: rfind_def)

lemma rfind_last_dot:
  "c \<notin> set ext \<Longrightarrow> rfind (stem @ c # ext) c = int (length stem)"
  by (simp add: rfind_def rfind_from_append rfind_from_notin)

lemma rfind_other:
  "c \<noteq> d \<Longrightarrow> c \<notin> set ext \<Longrightarrow> rfind (stem @ d # ext) c = rfind stem c"
  by (simp add: rfind_def rfind_from_append rfind_from_notin)

lemma splitext_scan_found:
  "filenameIndex \<le> j \<Longrightarrow> j < dotIndex \<Longrightarrow> 0 \<le> filenameIndex \<Longrightarrow> nat j < length p \<Longrightarrow>
   p ! nat j \<noteq> CHR ''.'' \<Longrightarrow>
   splitext_scan p dotIndex filenameIndex = (take (nat dotIndex) p, drop (nat dotIndex) p)"
proof (induction p dotIndex filenameIndex rule: splitext_scan.induct)
  case (1 p dotIndex filenameIndex)
  show ?case
  proof (cases "take 1 (drop (nat filenameIndex) p) \<noteq> ''.''")
    case True
    with "1.prems" show ?thesis by (simp add: splitext_scan.simps[of p dotIndex filenameIndex])
  next
    case False
    have "filenameIndex \<noteq> j"
    proof
      assume "filenameIndex = j"
      with "1.prems" have "drop (nat filenameIndex) p = p ! nat j # drop (Suc (nat j)) p"
        by (simp add: Cons_nth_drop_Suc)
      then have "take 1 (drop (nat filenameIndex) p) = [p ! nat j]" by simp
      with False "1.prems" show False by simp
    qed
    with "1.prems" have "filenameIndex + 1 \<le> j" by simp
    with "1.IH"[OF _ _ this] "1.prems" False
    have "splitext_scan p dotIndex (filenameIndex + 1) = (take (nat dotIndex) p, drop (nat dotIndex) p)"
      by simp
    with False "1.prems" show ?thesis by (simp add: splitext_scan.simps[of p dotIndex filenameIndex])
  qed
qed

lemma splitext_extension:
  assumes "CHR ''.'' \<notin> set ext" and "CHR ''/'' \<notin> set ext"
    and "\<exists>c \<in> set (basename stem). c \<noteq> CHR ''.''"
  shows "splitext (stem @ CHR ''.'' # ext) = (stem, CHR ''.'' # ext)"
proof -
  let ?p = "stem @ CHR ''.'' # ext"
  have dot: "rfind ?p CHR ''.'' = int (length stem)" using assms(1) by (rule rfind_last_dot)
  have sep: "rfind ?p CHR ''/'' = rfind stem CHR ''/''" using assms(2) by (simp add: rfind_other)
  have b: "- 1 \<le> rfind stem CHR ''/''" "rfind stem CHR ''/'' < int (length stem)"
    using rfind_bounds[of stem "CHR ''/''"] by simp_all
  define s where "s = nat (rfind stem CHR ''/'' + 1)"
  have s: "int s = rfind stem CHR ''/'' + 1" using b by (simp add: s_def)
  from assms(3) obtain k where k: "k < length (basename stem)" "basename stem ! k \<noteq> CHR ''.''"
    by (auto simp: in_set_conv_nth)
  have kl: "s + k < length stem" using k(1) by (simp add: basename_def s_def)
  have "stem ! (s + k) \<noteq> CHR ''.''"
    using k kl by (simp add: basename_def s_def)
  then have nth: "?p ! (s + k) \<noteq> CHR ''.''"
    using kl by (simp add: nth_append)
  have len: "s + k < length ?p" using kl by simp
  have "splitext_scan ?p (int (length stem)) (int s)
      = (take (nat (int (length stem))) ?p, drop (nat (int (length stem))) ?p)"
  proof (rule splitext_scan_found[where j = "int (s + k)"])
    show "int s \<le> int (s + k)" by simp
    show "int (s + k) < int (length stem)" using kl by simp
    show "0 \<le> int s" by simp
    show "nat (int (s + k)) < length ?p" unfolding nat_int by (rule len)
    show "?p ! nat (int (s + k)) \<noteq> CHR ''.''" unfolding nat_int by (rule nth)
  qed
  then show ?thesis
    using b by (simp add: splitext_def dot sep Let_def s[symmetric] del: splitext_scan.simps)
qed

lemma splitext_no_dot: "CHR ''.'' \<notin> set p \<Longrightarrow> splitext p = (p, [])"
  using rfind_bounds[of p "CHR ''/''"]
  by (simp add: splitext_def Let_def rfind_def rfind_from_notin[of _ p] del: splitext_scan.simps)

lemma split_not_Nil: "split c s \<noteq> []"
  by (induction s) (auto split: list.splits)

lemma split_no_sep: "c \<notin> set s \<Longrightarrow> split c s = [s]"
  by (induction s) auto

lemma split_line: "c \<notin> set x \<Longrightarrow> split c (x @ c # rest) = x # split c rest"
  by (induction x) (auto split: list.splits)

lemma split_lines:
  "\<forall>x \<in> set xs. c \<notin> set x \<Longrightarrow> split c (concat (map (\<lambda>x. x @ [c]) xs)) = xs @ [[]]"
  by (induction xs) (simp_all add: split_line)

lemma split_sep_length: "c \<in> set s \<Longrightarrow> 2 \<le> length (split c s)"
proof (induction s)
  case Nil
  then show ?case by simp
next
  case (Cons x xs)
  show ?case
  proof (cases "x = c")
    case True
    then show ?thesis using split_not_Nil[of c xs] by (cases "split c xs") auto
  next
    case False
    with Cons show ?thesis by (auto split: list.splits)
  qed
qed

lemma last_split_no_sep: "c \<notin> set (last (split c s))"
proof (induction s)
  case Nil
  then show ?case by simp
next
  case (Cons x xs)
  show ?case
  proof (cases "c \<in> set xs")
    case True
    then have "2 \<le> length (split c xs)" by (rule split_sep_length)
    then obtain y z zs where "split c xs = y # z # zs"
      by (cases "split c xs"; cases "tl (split c xs)") auto
    with Cons show ?thesis by auto
  next
    case False
    then show ?thesis by (simp add: split_no_sep)
  qed
qed

lemma last_split_suffix: "c \<in> set s \<Longrightarrow> \<exists>pre. s = pre @ c # last (split c s)"
proof (induction s)
  case Nil
  then show ?case by simp
next
  case (Cons x xs)
  show ?case
  proof (cases "c \<in> set xs")
    case True
    then have "2 \<le> length (split c xs)" by (rule split_sep_length)
    then obtain y z zs where yz: "split c xs = y # z # zs"
      by (cases "split c xs"; cases "tl (split c xs)") auto
    from True Cons.IH obtain pre where "xs = pre @ c # last (split c xs)" by blast
    then have "x # xs = (x # pre) @ c # last (split c xs)" by simp
    moreover have "last (split c (x # xs)) = last (split c xs)" using yz by auto
    ultimately show ?thesis by metis
  next
    case False
    with Cons.prems have "x = c" by simp
    then have "x # xs = [] @ c # last (split c (x # xs))"
      using False by (simp add: split_no_sep)
    then show ?thesis by blast
  qed
qed

section \<open>Content types\<close>

lemma lower_dot: "lower (CHR ''.'' # ext) = CHR ''.'' # lower ext"
proof -
  have "lower_char CHR ''.'' = CHR ''.''" by code_simp
  then show ?thesis by (simp add: lower_def)
qed

text \<open>
  C6: \<open>get_content_type\<close> looks at the extension that \<open>splitext\<close> gives, in lower case:
  \<open>.pdf\<close> gives \<open>application/pdf\<close>, \<open>.mp3\<close> gives \<open>audio/mpeg\<close>, \<open>.txt\<close> gives
  \<open>text/plain\<close>, \<open>.json\<close> gives \<open>application/json\<close>, and every other file name gives
  \<open>application/octet-stream\<close>. So a name \<open>stem.ext\<close> (with a character other than a
  dot in the last component of \<open>stem\<close>) has the type of \<open>ext\<close> whatever its case, and a
  name without a dot has the default type.
\<close>

theorem get_content_type_by_extension:
  "get_content_type filename =
     (let ext = lower (snd (splitext filename))
      in if ext = ''.pdf'' then ''application/pdf''
         else if ext = ''.mp3'' then ''audio/mpeg''
         else if ext = ''.txt'' then ''text/plain''
         else if ext = ''.json'' then ''application/json''
         else ''application/octet-stream'')
   \<and> (CHR ''.'' \<notin> set ext \<and> CHR ''/'' \<notin> set ext \<and> (\<exists>c \<in> set (basename stem). c \<noteq> CHR ''.'') \<longrightarrow>
        get_content_type (stem @ CHR ''.'' # ext) =
          (if lower ext = ''pdf'' then ''application/pdf''
           else if lower ext = ''mp3'' then ''audio/mpeg''
           else if lower ext = ''txt'' then ''text/plain''
           else if lower ext = ''json'' then ''application/json''
           else ''application/octet-stream''))
   \<and> (CHR ''.'' \<notin> set filename \<longrightarrow> get_content_type filename = ''application/octet-stream'')"
proof (intro conjI impI)
  show "get_content_type filename =
     (let ext = lower (snd (splitext filename))
      in if ext = ''.pdf'' then ''application/pdf''
         else if ext = ''.mp3'' then ''audio/mpeg''
         else if ext = ''.txt'' then ''text/plain''
         else if ext = ''.json'' then ''application/json''
         else ''application/octet-stream'')"
    by (simp add: get_content_type_def content_types_def Let_def)
next
  assume "CHR ''.'' \<notin> set ext \<and> CHR ''/'' \<notin> set ext \<and> (\<exists>c \<in> set (basename stem). c \<noteq> CHR ''.'')"
  then have "snd (splitext (stem @ CHR ''.'' # ext)) = CHR ''.'' # ext"
    by (simp add: splitext_extension)
  then show "get_content_type (stem @ CHR ''.'' # ext) =
          (if lower ext = ''pdf'' then ''application/pdf''
           else if lower ext = ''mp3'' then ''audio/mpeg''
           else if lower ext = ''txt'' then ''text/plain''
           else if lower ext = ''json'' then ''application/json''
           else ''application/octet-stream'')"
    by (simp add: get_content_type_def content_types_def Let_def lower_dot)
next
  assume "CHR ''.'' \<notin> set filename"
  then have "snd (splitext filename) = []" by (simp add: splitext_no_dot)
  then show "get_content_type filename = ''application/octet-stream''"
    by (simp add: get_content_type_def content_types_def Let_def lower_def)
qed

theorem get_content_type_by_extension_witness:
  "get_content_type ''Tape-07.MP3'' = ''audio/mpeg''
   \<and> get_content_type ''README'' = ''application/octet-stream''"
proof -
  have a: "CHR ''.'' \<notin> set ''MP3'' \<and> CHR ''/'' \<notin> set ''MP3''
           \<and> (\<exists>c \<in> set (basename ''Tape-07''). c \<noteq> CHR ''.'')"
    by code_simp
  have b: "lower ''MP3'' = ''mp3''" by code_simp
  have c: "CHR ''.'' \<notin> set ''README''" by simp
  show ?thesis
    using get_content_type_by_extension[of "''README''" "''MP3''" "''Tape-07''", THEN conjunct2] a c
    by (simp add: b)
qed

lemma get_content_type_examples:
  "get_content_type ''104-10001-10001.pdf'' = ''application/pdf''"
  "get_content_type ''notes.Txt'' = ''text/plain''"
  "get_content_type ''a.b/index.JSON'' = ''application/json''"
  "get_content_type ''.pdf'' = ''application/octet-stream''"
  "get_content_type ''archive.tar.gz'' = ''application/octet-stream''"
  by code_simp+

section \<open>Persisting the records\<close>

lemma writerows_eq:
  "writerows csvfile rs = csvfile @ concat (map (\<lambda>r. writerow [] (dict_to_list r)) rs)"
  by (induction rs arbitrary: csvfile) (simp_all add: writerow_def)

lemma write_urls_eq: "write_urls urlfile rs = urlfile @ concat (map (\<lambda>r. rec_url r @ [LF]) rs)"
  by (induction rs arbitrary: urlfile) simp_all

lemma dict_to_list_eq: "dict_to_list r = [rec_filename r, rec_url r, rec_release_date r]"
  by (simp add: dict_to_list_def fieldnames_def record_items_def)

lemma writeheader_eq: "writeheader [] = ''filename,url,release_date'' @ [CR, LF]"
  by (simp add: writeheader_def writerow_def fieldnames_def csv_field_def DQUOTE_def CR_def LF_def)

subsection \<open>Reading the CSV file back\<close>

lemma csv_scan_plain:
  "\<forall>c \<in> set s. c \<noteq> CHR '','' \<and> c \<noteq> DQUOTE \<and> c \<noteq> CR \<and> c \<noteq> LF \<Longrightarrow>
   csv_scan InField field row rows (s @ rest) = csv_scan InField (field @ s) row rows rest"
  by (induction s arbitrary: field) simp_all

lemma csv_scan_quoted:
  "csv_scan InQuoted field row rows
     (concat (map (\<lambda>c. if c = DQUOTE then [DQUOTE, DQUOTE] else [c]) s) @ DQUOTE # rest)
   = csv_scan QuoteSeen (field @ s) row rows rest"
  by (induction s arbitrary: field) simp_all

lemma special_chars: "CHR '','' \<noteq> DQUOTE" "CR \<noteq> DQUOTE" "LF \<noteq> DQUOTE" "CR \<noteq> CHR '',''"
  "LF \<noteq> CHR '',''" "CR \<noteq> LF"
  by (simp_all add: DQUOTE_def CR_def LF_def)

lemma csv_scan_field_comma:
  "csv_scan StartField field row rows (csv_field s @ CHR '','' # rest)
   = csv_scan StartField [] (row @ [s]) rows rest"
proof (cases "CHR '','' \<in> set s \<or> DQUOTE \<in> set s \<or> CR \<in> set s \<or> LF \<in> set s")
  case True
  then show ?thesis
    using csv_scan_quoted[of "[]" row rows s "CHR '','' # rest"]
    by (simp add: csv_field_def special_chars)
next
  case False
  then have plain: "\<forall>c \<in> set s. c \<noteq> CHR '','' \<and> c \<noteq> DQUOTE \<and> c \<noteq> CR \<and> c \<noteq> LF" by auto
  show ?thesis
  proof (cases s)
    case Nil
    then show ?thesis by (simp add: csv_field_def special_chars)
  next
    case (Cons c cs)
    with plain have c: "c \<noteq> CHR '',''" "c \<noteq> DQUOTE" "c \<noteq> CR" "c \<noteq> LF"
      and cs: "\<forall>c \<in> set cs. c \<noteq> CHR '','' \<and> c \<noteq> DQUOTE \<and> c \<noteq> CR \<and> c \<noteq> LF" by auto
    from False Cons c show ?thesis
      using csv_scan_plain[OF cs, of "[c]" row rows "CHR '','' # rest"]
      by (simp add: csv_field_def special_chars)
  qed
qed

lemma csv_scan_field_crlf:
  "csv_scan StartField field row rows (csv_field s @ CR # LF # rest)
   = csv_scan StartField [] [] (rows @ [row @ [s]]) rest"
proof (cases "CHR '','' \<in> set s \<or> DQUOTE \<in> set s \<or> CR \<in> set s \<or> LF \<in> set s")
  case True
  then show ?thesis
    using csv_scan_quoted[of "[]" row rows s "CR # LF # rest"]
    by (simp add: csv_field_def special_chars)
next
  case False
  then have plain: "\<forall>c \<in> set s. c \<noteq> CHR '','' \<and> c \<noteq> DQUOTE \<and> c \<noteq> CR \<and> c \<noteq> LF" by auto
  show ?thesis
  proof (cases s)
    case Nil
    then show ?thesis by (simp add: csv_field_def special_chars)
  next
    case (Cons c cs)
    with plain have c: "c \<noteq> CHR '',''" "c \<noteq> DQUOTE" "c \<noteq> CR" "c \<noteq> LF"
      and cs: "\<forall>c \<in> set cs. c \<noteq> CHR '','' \<and> c \<noteq> DQUOTE \<and> c \<noteq> CR \<and> c \<noteq> LF" by auto
    from False Cons c show ?thesis
      using csv_scan_plain[OF cs, of "[c]" row rows "CR # LF # rest"]
      by (simp add: csv_field_def special_chars)
  qed
qed

lemma csv_scan_row:
  "cells \<noteq> [] \<Longrightarrow>
   csv_scan StartField field row rows (join '','' (map csv_field cells) @ CR # LF # rest)
   = csv_scan StartField [] [] (rows @ [row @ cells]) rest"
proof (induction cells arbitrary: field row)
  case Nil
  then show ?case by simp
next
  case (Cons f cells)
  show ?case
  proof (cases cells)
    case Nil
    then show ?thesis by (simp add: csv_scan_field_crlf)
  next
    case (Cons g gs)
    then have "csv_scan StartField field row rows
        (join '','' (map csv_field (f # cells)) @ CR # LF # rest)
      = csv_scan StartField [] (row @ [f]) rows (join '','' (map csv_field cells) @ CR # LF # rest)"
      using csv_scan_field_comma[of field row rows f] by simp
    also have "\<dots> = csv_scan StartField [] [] (rows @ [(row @ [f]) @ cells]) rest"
      using Cons by (intro Cons.IH) simp
    finally show ?thesis by simp
  qed
qed

lemma csv_scan_rows:
  "\<forall>cells \<in> set table. cells \<noteq> [] \<Longrightarrow>
   csv_scan StartField [] [] rows
     (concat (map (\<lambda>cells. join '','' (map csv_field cells) @ [CR, LF]) table))
   = Some (rows @ table)"
proof (induction table arbitrary: rows)
  case Nil
  then show ?case by simp
next
  case (Cons cells table)
  then have "csv_scan StartField [] [] rows
     (concat (map (\<lambda>cells. join '','' (map csv_field cells) @ [CR, LF]) (cells # table)))
    = csv_scan StartField [] [] (rows @ [cells])
     (concat (map (\<lambda>cells. join '','' (map csv_field cells) @ [CR, LF]) table))"
    using csv_scan_row[of cells "[]" "[]" rows] by simp
  also have "\<dots> = Some ((rows @ [cells]) @ table)"
    using Cons.prems by (intro Cons.IH) simp
  finally show ?case by simp
qed

text \<open>Read back, the CSV file gives the header and then the three fields of each record.\<close>

lemma csv_rows_writerows:
  "csv_rows (writerows (writeheader []) records)
   = Some (fieldnames # map (\<lambda>r. [rec_filename r, rec_url r, rec_release_date r]) records)"
proof -
  let ?table = "fieldnames # map (\<lambda>r. [rec_filename r, rec_url r, rec_release_date r]) records"
  have content: "writerows (writeheader []) records
      = concat (map (\<lambda>cells. join '','' (map csv_field cells) @ [CR, LF]) ?table)"
    by (simp add: writerows_eq writeheader_def writerow_def dict_to_list_eq comp_def)
  have "\<forall>cells \<in> set ?table. cells \<noteq> []"
    by (auto simp: fieldnames_def)
  from csv_scan_rows[OF this, of "[]"] show ?thesis
    unfolding csv_rows_def content by simp
qed

subsection \<open>Reading the JSON file back\<close>

lemma json_lex_between: "json_lex Between acc toks cs = json_lex Between [] toks cs"
  by (cases cs) simp_all

lemma hex_value_digit: "m < 16 \<Longrightarrow> hex_value (hex_digit m) = Some m"
  by (simp add: hex_value_def hex_digit_def Let_def)

lemma control_chars:
  "char_of (8 :: nat) = CHR 0x08" "char_of (12 :: nat) = CHR 0x0C" "char_of (10 :: nat) = LF"
  "char_of (13 :: nat) = CR" "char_of (9 :: nat) = CHR 0x09"
  "(of_char BACKSLASH :: nat) = 92" "(of_char DQUOTE :: nat) = 34"
  by code_simp+

lemma json_lex_escape:
  "json_lex InStr acc toks (json_escape c @ rest) = json_lex InStr (acc @ [c]) toks rest"
proof -
  define n where "n = (of_char c :: nat)"
  have c: "c = char_of n" by (simp add: n_def)
  consider "c = BACKSLASH" | "c = DQUOTE" | "n = 8" | "n = 12" | "n = 10" | "n = 13" | "n = 9"
    | "n < 32" "n \<noteq> 8" "n \<noteq> 12" "n \<noteq> 10" "n \<noteq> 13" "n \<noteq> 9"
    | "32 \<le> n" "c \<noteq> BACKSLASH" "c \<noteq> DQUOTE"
    by linarith
  then show ?thesis
  proof cases
    case 1
    then show ?thesis by (simp add: json_escape_def BACKSLASH_def DQUOTE_def)
  next
    case 2
    then show ?thesis by (simp add: json_escape_def BACKSLASH_def DQUOTE_def)
  next
    case 3
    with c have "c = CHR 0x08" by (simp add: control_chars)
    then show ?thesis by (simp add: json_escape_def BACKSLASH_def DQUOTE_def)
  next
    case 4
    with c have "c = CHR 0x0C" by (simp add: control_chars)
    then show ?thesis by (simp add: json_escape_def BACKSLASH_def DQUOTE_def)
  next
    case 5
    with c have "c = CHR 0x0A" by (simp add: control_chars LF_def)
    then show ?thesis by (simp add: json_escape_def BACKSLASH_def DQUOTE_def LF_def)
  next
    case 6
    with c have "c = CHR 0x0D" by (simp add: control_chars CR_def)
    then show ?thesis by (simp add: json_escape_def BACKSLASH_def DQUOTE_def CR_def)
  next
    case 7
    with c have "c = CHR 0x09" by (simp add: control_chars)
    then show ?thesis by (simp add: json_escape_def BACKSLASH_def DQUOTE_def)
  next
    case 8
    have q: "c \<noteq> BACKSLASH" "c \<noteq> DQUOTE"
      using 8(1) control_chars(6,7) n_def by auto
    have esc: "json_escape c = [BACKSLASH, CHR ''u'', CHR ''0'', CHR ''0'',
        hex_digit (n div 16), hex_digit (n mod 16)]"
      using 8 q by (simp add: json_escape_def n_def[symmetric] Let_def)
    have h: "hex_value (hex_digit (n div 16)) = Some (n div 16)"
      "hex_value (hex_digit (n mod 16)) = Some (n mod 16)"
      "hex_value CHR ''0'' = Some 0"
      using 8(1) by (simp_all add: hex_value_digit) (simp add: hex_value_def)
    have "n < 256" using 8(1) by simp
    then show ?thesis
      unfolding esc using h c
      by (simp add: BACKSLASH_def DQUOTE_def)
  next
    case 9
    then have "json_escape c = [c]"
      by (auto simp: json_escape_def n_def[symmetric] Let_def)
    with 9 show ?thesis by (simp add: n_def)
  qed
qed

lemma json_lex_string_body:
  "json_lex InStr acc toks (concat (map json_escape s) @ DQUOTE # rest)
   = json_lex Between [] (toks @ [Str (acc @ s)]) rest"
proof (induction s arbitrary: acc)
  case Nil
  then show ?case by simp
next
  case (Cons c s)
  have "json_lex InStr acc toks (concat (map json_escape (c # s)) @ DQUOTE # rest)
      = json_lex InStr acc toks (json_escape c @ (concat (map json_escape s) @ DQUOTE # rest))"
    by simp
  also have "\<dots> = json_lex InStr (acc @ [c]) toks (concat (map json_escape s) @ DQUOTE # rest)"
    by (rule json_lex_escape)
  also have "\<dots> = json_lex Between [] (toks @ [Str ((acc @ [c]) @ s)]) rest"
    by (rule Cons.IH)
  finally show ?case by simp
qed

lemma json_lex_string:
  "json_lex Between acc toks (json_string s @ rest) = json_lex Between [] (toks @ [Str s]) rest"
  using json_lex_string_body[of "[]" toks s rest]
  by (simp add: json_string_def DQUOTE_def LF_def CR_def)

lemma json_lex_dict:
  "json_lex Between acc toks (json_dict r @ rest)
   = json_lex Between [] (toks @ record_tokens r) rest"
proof -
  have "json_lex Between acc toks (json_dict r @ rest)
      = json_lex Between [] (toks @ [LBrace])
          (json_string ''filename'' @ '': '' @ json_string (rec_filename r) @ '','' @ [LF] @ ''    ''
           @ json_string ''url'' @ '': '' @ json_string (rec_url r) @ '','' @ [LF] @ ''    ''
           @ json_string ''release_date'' @ '': '' @ json_string (rec_release_date r)
           @ [LF] @ ''  '' @ ''}'' @ rest)"
    by (simp add: json_dict_def record_items_def DQUOTE_def LF_def CR_def)
  also have "\<dots> = json_lex Between [] (toks @ [LBrace, Str ''filename''])
          ('': '' @ json_string (rec_filename r) @ '','' @ [LF] @ ''    ''
           @ json_string ''url'' @ '': '' @ json_string (rec_url r) @ '','' @ [LF] @ ''    ''
           @ json_string ''release_date'' @ '': '' @ json_string (rec_release_date r)
           @ [LF] @ ''  '' @ ''}'' @ rest)"
    by (simp only: json_lex_string append_assoc append_Cons append_Nil)
  also have "\<dots> = json_lex Between [] (toks @ [LBrace, Str ''filename'', Colon])
          (json_string (rec_filename r) @ '','' @ [LF] @ ''    ''
           @ json_string ''url'' @ '': '' @ json_string (rec_url r) @ '','' @ [LF] @ ''    ''
           @ json_string ''release_date'' @ '': '' @ json_string (rec_release_date r)
           @ [LF] @ ''  '' @ ''}'' @ rest)"
    by (simp add: DQUOTE_def LF_def CR_def)
  also have "\<dots> = json_lex Between [] (toks @ [LBrace, Str ''filename'', Colon, Str (rec_filename r)])
          ('','' @ [LF] @ ''    ''
           @ json_string ''url'' @ '': '' @ json_string (rec_url r) @ '','' @ [LF] @ ''    ''
           @ json_string ''release_date'' @ '': '' @ json_string (rec_release_date r)
           @ [LF] @ ''  '' @ ''}'' @ rest)"
    by (simp only: json_lex_string append_assoc append_Cons append_Nil)
  also have "\<dots> = json_lex Between []
          (toks @ [LBrace, Str ''filename'', Colon, Str (rec_filename r), Comma])
          (json_string ''url'' @ '': '' @ json_string (rec_url r) @ '','' @ [LF] @ ''    ''
           @ json_string ''release_date'' @ '': '' @ json_string (rec_release_date r)
           @ [LF] @ ''  '' @ ''}'' @ rest)"
    by (simp add: DQUOTE_def LF_def CR_def)
  also have "\<dots> = json_lex Between []
          (toks @ [LBrace, Str ''filename'', Colon, Str (rec_filename r), Comma, Str ''url''])
          ('': '' @ json_string (rec_url r) @ '','' @ [LF] @ ''    ''
           @ json_string ''release_date'' @ '': '' @ json_string (rec_release_date r)
           @ [LF] @ ''  '' @ ''}'' @ rest)"
    by (simp only: json_lex_string append_assoc append_Cons append_Nil)
  also have "\<dots> = json_lex Between []
          (toks @ [LBrace, Str ''filename'', Colon, Str (rec_filename r), Comma, Str ''url'', Colon])
          (json_string (rec_url r) @ '','' @ [LF] @ ''    ''
           @ json_string ''release_date'' @ '': '' @ json_string (rec_release_date r)
           @ [LF] @ ''  '' @ ''}'' @ rest)"
    by (simp add: DQUOTE_def LF_def CR_def)
  also have "\<dots> = json_lex Between []
          (toks @ [LBrace, Str ''filename'', Colon, Str (rec_filename r), Comma, Str ''url'', Colon,
                   Str (rec_url r)])
          ('','' @ [LF] @ ''    ''
           @ json_string ''release_date'' @ '': '' @ json_string (rec_release_date r)
           @ [LF] @ ''  '' @ ''}'' @ rest)"
    by (simp only: json_lex_string append_assoc append_Cons append_Nil)
  also have "\<dots> = json_lex Between []
          (toks @ [LBrace, Str ''filename'', Colon, Str (rec_filename r), Comma, Str ''url'', Colon,
                   Str (rec_url r), Comma])
          (json_string ''release_date'' @ '': '' @ json_string (rec_release_date r)
           @ [LF] @ ''  '' @ ''}'' @ rest)"
    by (simp add: DQUOTE_def LF_def CR_def)
  also have "\<dots> = json_lex Between []
          (toks @ [LBrace, Str ''filename'', Colon, Str (rec_filename r), Comma, Str ''url'', Colon,
                   Str (rec_url r), Comma, Str ''release_date''])
          ('': '' @ json_string (rec_release_date r) @ [LF] @ ''  '' @ ''}'' @ rest)"
    by (simp only: json_lex_string append_assoc append_Cons append_Nil)
  also have "\<dots> = json_lex Between []
          (toks @ [LBrace, Str ''filename'', Colon, Str (rec_filename r), Comma, Str ''url'', Colon,
                   Str (rec_url r), Comma, Str ''release_date'', Colon])
          (json_string (rec_release_date r) @ [LF] @ ''  '' @ ''}'' @ rest)"
    by (simp add: DQUOTE_def LF_def CR_def)
  also have "\<dots> = json_lex Between []
          (toks @ [LBrace, Str ''filename'', Colon, Str (rec_filename r), Comma, Str ''url'', Colon,
                   Str (rec_url r), Comma, Str ''release_date'', Colon, Str (rec_release_date r)])
          ([LF] @ ''  '' @ ''}'' @ rest)"
    by (simp only: json_lex_string append_assoc append_Cons append_Nil)
  also have "\<dots> = json_lex Between [] (toks @ record_tokens r) rest"
    by (simp add: DQUOTE_def LF_def CR_def record_tokens_def)
  finally show ?thesis .
qed

lemma json_lex_dicts:
  "json_lex Between acc toks (join ('','' @ [LF] @ ''  '') (map json_dict rs) @ rest)
   = json_lex Between [] (toks @ records_tokens rs) rest"
proof (induction rs arbitrary: acc toks rule: records_tokens.induct)
  case 1
  show ?case by (simp add: json_lex_between[of acc])
next
  case (2 r)
  show ?case by (simp add: json_lex_dict)
next
  case (3 r r' rs)
  have "json_lex Between acc toks
      (join ('','' @ [LF] @ ''  '') (map json_dict (r # r' # rs)) @ rest)
    = json_lex Between acc toks
      (json_dict r @ ('','' @ [LF] @ ''  '')
         @ join ('','' @ [LF] @ ''  '') (map json_dict (r' # rs)) @ rest)"
    by simp
  also have "\<dots> = json_lex Between [] (toks @ record_tokens r)
      (('','' @ [LF] @ ''  '') @ join ('','' @ [LF] @ ''  '') (map json_dict (r' # rs)) @ rest)"
    by (rule json_lex_dict)
  also have "\<dots> = json_lex Between [] ((toks @ record_tokens r) @ [Comma])
      (join ('','' @ [LF] @ ''  '') (map json_dict (r' # rs)) @ rest)"
    by (simp add: DQUOTE_def LF_def CR_def)
  also have "\<dots> = json_lex Between [] (((toks @ record_tokens r) @ [Comma]) @ records_tokens (r' # rs)) rest"
    by (rule 3)
  finally show ?case by simp
qed

lemma json_lex_dump:
  "json_lex Between [] [] (json_dump records) = Some (LBracket # records_tokens records @ [RBracket])"
proof (cases "records = []")
  case True
  then show ?thesis by (simp add: json_dump_def DQUOTE_def LF_def CR_def)
next
  case False
  then have "json_lex Between [] [] (json_dump records)
      = json_lex Between [] [LBracket]
          (join ('','' @ [LF] @ ''  '') (map json_dict records) @ [LF] @ '']'')"
    by (simp add: json_dump_def DQUOTE_def LF_def CR_def)
  also have "\<dots> = json_lex Between [] ([LBracket] @ records_tokens records) ([LF] @ '']'')"
    by (rule json_lex_dicts)
  also have "\<dots> = Some (LBracket # records_tokens records @ [RBracket])"
    by (simp add: DQUOTE_def LF_def CR_def)
  finally show ?thesis .
qed

lemma json_parse_record:
  "json_parse ExpectFirstKey [] objs (tl (record_tokens r) @ rest)
   = json_parse ExpectObjectEnd [] (objs @ [record_items r]) rest"
  by (simp add: record_tokens_def record_items_def)

lemma json_parse_records:
  "rs \<noteq> [] \<Longrightarrow>
   json_parse ExpectObject members objs (records_tokens rs @ [RBracket])
   = Some (objs @ map record_items rs)"
proof (induction rs arbitrary: members objs rule: records_tokens.induct)
  case 1
  then show ?case by simp
next
  case (2 r)
  have "json_parse ExpectObject members objs (records_tokens [r] @ [RBracket])
      = json_parse ExpectFirstKey [] objs (tl (record_tokens r) @ [RBracket])"
    by (simp add: record_tokens_def)
  then show ?case by (simp add: json_parse_record)
next
  case (3 r r' rs)
  have "json_parse ExpectObject members objs (records_tokens (r # r' # rs) @ [RBracket])
      = json_parse ExpectFirstKey [] objs
          (tl (record_tokens r) @ Comma # records_tokens (r' # rs) @ [RBracket])"
    by (simp add: record_tokens_def)
  also have "\<dots> = json_parse ExpectObjectEnd [] (objs @ [record_items r])
          (Comma # records_tokens (r' # rs) @ [RBracket])"
    by (rule json_parse_record)
  also have "\<dots> = json_parse ExpectObject [] (objs @ [record_items r])
          (records_tokens (r' # rs) @ [RBracket])"
    by simp
  also have "\<dots> = Some ((objs @ [record_items r]) @ map record_items (r' # rs))"
    by (rule 3) simp
  finally show ?case by simp
qed

text \<open>Read back, the JSON file gives the records, each with its three entries in order.\<close>

lemma json_loads_dump: "json_loads (json_dump records) = Some (map record_items records)"
proof (cases records)
  case Nil
  then show ?thesis by (simp add: json_loads_def json_lex_dump)
next
  case (Cons r rs)
  have "json_parse ExpectArray [] [] (LBracket # records_tokens (r # rs) @ [RBracket])
      = json_parse ExpectObject [] [] (records_tokens (r # rs) @ [RBracket])"
    by (cases rs) (simp_all add: record_tokens_def)
  also have "\<dots> = Some ([] @ map record_items (r # rs))"
    by (rule json_parse_records) simp
  finally show ?thesis by (simp add: json_loads_def json_lex_dump Cons)
qed

subsection \<open>\<open>save_records\<close>\<close>

text \<open>
  C7: for a non-empty list of records, \<open>save_records\<close> with format \<open>csv\<close> writes the CSV
  file, which read back as CSV gives the row \<open>filename,url,release_date\<close> and then one row
  per record with its three fields, in the order of the records; with format \<open>json\<close> it
  writes the JSON file, which read back as JSON gives the records, each with its entries
  \<open>filename\<close>, \<open>url\<close> and \<open>release_date\<close>, in the order of the records; in both cases
  it also writes the URL file, which holds the \<open>url\<close> of each record followed by a
  newline, in the order of the records: read line by line it gives back exactly these URLs.
\<close>

theorem save_records_persists:
  assumes "records \<noteq> []"
  shows "save_records timestamp records ''csv'' fs =
           fs(''mlk_records_'' @ timestamp @ ''.csv'' \<mapsto>
                ''filename,url,release_date'' @ [CR, LF]
                  @ concat (map (\<lambda>r. join '','' (map csv_field [rec_filename r, rec_url r, rec_release_date r])
                                        @ [CR, LF]) records),
              ''mlk_urls_'' @ timestamp @ ''.txt'' \<mapsto> concat (map (\<lambda>r. rec_url r @ [LF]) records))
         \<and> csv_rows (''filename,url,release_date'' @ [CR, LF]
                  @ concat (map (\<lambda>r. join '','' (map csv_field [rec_filename r, rec_url r, rec_release_date r])
                                        @ [CR, LF]) records))
             = Some ([''filename'', ''url'', ''release_date'']
                     # map (\<lambda>r. [rec_filename r, rec_url r, rec_release_date r]) records)
         \<and> save_records timestamp records ''json'' fs =
           fs(''mlk_records_'' @ timestamp @ ''.json'' \<mapsto> json_dump records,
              ''mlk_urls_'' @ timestamp @ ''.txt'' \<mapsto> concat (map (\<lambda>r. rec_url r @ [LF]) records))
         \<and> json_loads (json_dump records)
             = Some (map (\<lambda>r. [(''filename'', rec_filename r), (''url'', rec_url r),
                                 (''release_date'', rec_release_date r)]) records)
         \<and> ((\<forall>r \<in> set records. LF \<notin> set (rec_url r)) \<longrightarrow>
              split LF (concat (map (\<lambda>r. rec_url r @ [LF]) records)) = map rec_url records @ [[]])"
proof -
  have csv: "writerows (writeheader []) records =
      ''filename,url,release_date'' @ [CR, LF]
        @ concat (map (\<lambda>r. join '','' (map csv_field [rec_filename r, rec_url r, rec_release_date r])
                              @ [CR, LF]) records)"
    by (simp only: writerows_eq writeheader_eq dict_to_list_eq writerow_def append_Nil append_assoc)
  have urls: "write_urls [] records = concat (map (\<lambda>r. rec_url r @ [LF]) records)"
    by (simp add: write_urls_eq)
  have lines: "(\<forall>r \<in> set records. LF \<notin> set (rec_url r)) \<longrightarrow>
      split LF (concat (map (\<lambda>r. rec_url r @ [LF]) records)) = map rec_url records @ [[]]"
    using split_lines[of "map rec_url records" LF] by (simp add: comp_def)
  have a: "save_records timestamp records ''csv'' fs =
           fs(''mlk_records_'' @ timestamp @ ''.csv'' \<mapsto> writerows (writeheader []) records,
              ''mlk_urls_'' @ timestamp @ ''.txt'' \<mapsto> write_urls [] records)"
    using assms by (simp add: save_records_def Let_def)
  have b: "save_records timestamp records ''json'' fs =
           fs(''mlk_records_'' @ timestamp @ ''.json'' \<mapsto> json_dump records,
              ''mlk_urls_'' @ timestamp @ ''.txt'' \<mapsto> write_urls [] records)"
    using assms by (simp add: save_records_def Let_def)
  have c: "csv_rows (writerows (writeheader []) records)
      = Some ([''filename'', ''url'', ''release_date'']
              # map (\<lambda>r. [rec_filename r, rec_url r, rec_release_date r]) records)"
    using csv_rows_writerows[of records] by (simp only: fieldnames_def)
  have d: "json_loads (json_dump records)
      = Some (map (\<lambda>r. [(''filename'', rec_filename r), (''url'', rec_url r),
                          (''release_date'', rec_release_date r)]) records)"
    using json_loads_dump[of records] by (simp add: record_items_def[abs_def])
  show ?thesis
    using a b c d lines by (simp only: csv urls simp_thms)
qed

lemma ex_records_text:
  "''filename,url,release_date'' @ [CR, LF]
     @ concat (map (\<lambda>r. join '','' (map csv_field [rec_filename r, rec_url r, rec_release_date r])
                           @ [CR, LF]) ex_records) = ex_csv_text"
  "json_dump ex_records = ex_json_text"
  "concat (map (\<lambda>r. rec_url r @ [LF]) ex_records) = ex_urls_text"
  "map (\<lambda>r. [rec_filename r, rec_url r, rec_release_date r]) ex_records
     = [[''a,b '' @ [DQUOTE] @ ''c'' @ [DQUOTE], ''https://www.archives.gov/files/a.pdf'',
         ''07/21'' @ [LF] @ ''2025''],
        [''104-10001'', ''https://www.archives.gov/files/b.pdf'', ''07/21/2025'']]"
  "map (\<lambda>r. [(''filename'', rec_filename r), (''url'', rec_url r),
               (''release_date'', rec_release_date r)]) ex_records
     = [[(''filename'', ''a,b '' @ [DQUOTE] @ ''c'' @ [DQUOTE]),
         (''url'', ''https://www.archives.gov/files/a.pdf''),
         (''release_date'', ''07/21'' @ [LF] @ ''2025'')],
        [(''filename'', ''104-10001''), (''url'', ''https://www.archives.gov/files/b.pdf''),
         (''release_date'', ''07/21/2025'')]]"
  "split LF ex_urls_text
     = [''https://www.archives.gov/files/a.pdf'', ''https://www.archives.gov/files/b.pdf'', []]"
  by code_simp+

theorem save_records_persists_witness:
  "save_records ''20250722_133807'' ex_records ''csv'' Map.empty ''mlk_records_20250722_133807.csv''
     = Some ex_csv_text
   \<and> save_records ''20250722_133807'' ex_records ''csv'' Map.empty ''mlk_urls_20250722_133807.txt''
     = Some ex_urls_text
   \<and> csv_rows ex_csv_text
     = Some [[''filename'', ''url'', ''release_date''],
             [''a,b '' @ [DQUOTE] @ ''c'' @ [DQUOTE], ''https://www.archives.gov/files/a.pdf'',
              ''07/21'' @ [LF] @ ''2025''],
             [''104-10001'', ''https://www.archives.gov/files/b.pdf'', ''07/21/2025'']]
   \<and> save_records ''20250722_133807'' ex_records ''json'' Map.empty ''mlk_records_20250722_133807.json''
     = Some ex_json_text
   \<and> save_records ''20250722_133807'' ex_records ''json'' Map.empty ''mlk_urls_20250722_133807.txt''
     = Some ex_urls_text
   \<and> json_loads ex_json_text
     = Some [[(''filename'', ''a,b '' @ [DQUOTE] @ ''c'' @ [DQUOTE]),
              (''url'', ''https://www.archives.gov/files/a.pdf''),
              (''release_date'', ''07/21'' @ [LF] @ ''2025'')],
             [(''filename'', ''104-10001''), (''url'', ''https://www.archives.gov/files/b.pdf''),
              (''release_date'', ''07/21/2025'')]]
   \<and> split LF ex_urls_text
     = [''https://www.archives.gov/files/a.pdf'', ''https://www.archives.gov/files/b.pdf'', []]"
proof -
  have ne: "ex_records \<noteq> []" by (simp add: ex_records_def)
  have lf: "\<forall>r \<in> set ex_records. LF \<notin> set (rec_url r)" by (simp add: ex_records_def LF_def)
  show ?thesis
    using save_records_persists[OF ne, of "''20250722_133807''" Map.empty] lf
    unfolding ex_records_text
    by simp
qed

text \<open>
  C10: with an empty list of records \<open>save_records\<close> returns at once and leaves the file
  system as it was: no CSV, JSON or URL file is written.
\<close>

theorem save_records_empty: "save_records timestamp [] format fs = fs"
  by (simp add: save_records_def)

section \<open>The index page\<close>

lemma contents_loop_eq:
  "contents_loop html objs =
     html @ map (\<lambda>obj. object_line (Key obj)) (filter (\<lambda>obj. \<not> endswith (Key obj) ''/'') objs)"
  by (induction objs arbitrary: html) (simp_all add: Let_def)

lemma pages_loop_eq:
  "pages_loop html pages =
     html @ map (\<lambda>obj. object_line (Key obj))
              (filter (\<lambda>obj. \<not> endswith (Key obj) ''/'') (listed_objects pages))"
  by (induction pages arbitrary: html) (simp_all add: contents_loop_eq listed_objects_def)

text \<open>
  C4, as the script has it: the page holds the static anchor to the processed JSONL file,
  then one anchor for each listed object whose key does not end in \<open>/\<close>, in the order of
  the listing (keys ending in \<open>/\<close> are folders and are skipped); the \<open>href\<close> of the anchor
  is \<open>https://BUCKET.s3.amazonaws.com/key\<close> and its text is the part of the key after the
  last \<open>/\<close>. The lines are written to \<open>index.html\<close>, joined by newlines.
\<close>

theorem index_html_anchors:
  "index_html pages =
     [''<html><body>'', ''<h1>Processed Dataset</h1>'',
      ''<p><a href='' @ [DQUOTE] @ PROCESSED_JSONL_URL @ [DQUOTE] @ ''>Download mlk-archive-public.jsonl</a></p>'',
      ''<h1>Unprocessed National Archive Files</h1><ul>'']
     @ map (\<lambda>obj. ''<li><a href='' @ [DQUOTE] @ ''https://'' @ BUCKET @ ''.s3.amazonaws.com/'' @ Key obj @ [DQUOTE]
                    @ ''>'' @ last (split CHR ''/'' (Key obj)) @ ''</a></li>'')
         (filter (\<lambda>obj. \<not> endswith (Key obj) ''/'') (listed_objects pages))
     @ [''</ul></body></html>'']
   \<and> generate_index (Inr pages) fs = Inr (fs(''index.html'' \<mapsto> join [LF] (index_html pages)))
   \<and> CHR ''/'' \<notin> set (last (split CHR ''/'' key))
   \<and> (if CHR ''/'' \<in> set key then \<exists>pre. key = pre @ CHR ''/'' # last (split CHR ''/'' key)
       else last (split CHR ''/'' key) = key)"
proof -
  have "index_html pages =
     [''<html><body>'', ''<h1>Processed Dataset</h1>'',
      ''<p><a href='' @ [DQUOTE] @ PROCESSED_JSONL_URL @ [DQUOTE] @ ''>Download mlk-archive-public.jsonl</a></p>'',
      ''<h1>Unprocessed National Archive Files</h1><ul>'']
     @ map (\<lambda>obj. object_line (Key obj))
         (filter (\<lambda>obj. \<not> endswith (Key obj) ''/'') (listed_objects pages))
     @ [''</ul></body></html>'']"
    by (simp add: index_html_def pages_loop_eq)
  moreover have "generate_index (Inr pages) fs = Inr (fs(''index.html'' \<mapsto> join [LF] (index_html pages)))"
    by (simp add: generate_index_def OUTPUT_FILE_def)
  moreover have "CHR ''/'' \<notin> set (last (split CHR ''/'' key))"
    by (rule last_split_no_sep)
  moreover have "if CHR ''/'' \<in> set key then \<exists>pre. key = pre @ CHR ''/'' # last (split CHR ''/'' key)
       else last (split CHR ''/'' key) = key"
    using last_split_suffix[of "CHR ''/''" key] by (simp add: split_no_sep)
  ultimately show ?thesis
    by (simp only: object_line_def Let_def append_assoc simp_thms)
qed

theorem index_html_anchors_witness:
  "drop 4 (butlast (index_html [Some [\<lparr>Key = ''mlk-archive/''\<rparr>, \<lparr>Key = ''mlk-archive/104-10001.pdf''\<rparr>], None]))
     = [''<li><a href='' @ [DQUOTE]
        @ ''https://example-transformations-mlk-archive.s3.amazonaws.com/mlk-archive/104-10001.pdf''
        @ [DQUOTE] @ ''>104-10001.pdf</a></li>'']"
  using index_html_anchors[of "[Some [\<lparr>Key = ''mlk-archive/''\<rparr>, \<lparr>Key = ''mlk-archive/104-10001.pdf''\<rparr>], None]"
      Map.empty "''mlk-archive/104-10001.pdf''"]
  by (simp add: listed_objects_def endswith_def BUCKET_def)

text \<open>
  The claim as written, one anchor per listed object, fails on a listing that holds a
  folder key: the listing has one object and the page has no anchor for it.
\<close>

theorem index_html_folder_counterexample:
  "length (drop 4 (butlast (index_html [Some [\<lparr>Key = ''mlk-archive/''\<rparr>]])))
     \<noteq> length (listed_objects [Some [\<lparr>Key = ''mlk-archive/''\<rparr>]])"
  by (simp add: index_html_def listed_objects_def endswith_def)

section \<open>The downloader: one URL\<close>

lemma download_and_store_get_fails:
  "session_get e url = GetRaises msg \<Longrightarrow>
   download_and_store e url filename s3_key (d, w) =
     (Returned False filename (Some (''Download error: '' @ msg)),
      (d\<lparr>failed_count := failed_count d + 1\<rparr>, w\<lparr>calls := calls w @ [GET url]\<rparr>))"
  by (simp add: download_and_store_def download_error_def)

lemma download_and_store_upload_fails:
  "session_get e url = GetOk chunks \<Longrightarrow> upload_fileobj_raises e s3_key = Some msg \<Longrightarrow>
   download_and_store e url filename s3_key (d, w) =
     (Returned False filename (Some (''Upload error: '' @ msg)),
      (d\<lparr>failed_count := failed_count d + 1\<rparr>, w\<lparr>calls := calls w @ [GET url]\<rparr>))"
  by (simp add: download_and_store_def upload_error_def)

lemma download_and_store_ok:
  "session_get e url = GetOk chunks \<Longrightarrow> upload_fileobj_raises e s3_key = None \<Longrightarrow>
   download_and_store e url filename s3_key (d, w) =
     (Returned True filename None,
      (d\<lparr>downloaded_count := downloaded_count d + 1,
         total_size := total_size d + int (length (concat chunks))\<rparr>,
       w\<lparr>objects := (objects w)(s3_key \<mapsto> stored_object e url filename (concat chunks)),
         calls := calls w @ [GET url, Uploaded s3_key (stored_object e url filename (concat chunks))]\<rparr>))"
  by (simp add: download_and_store_def stored_object_def Let_def)

lemma download_and_store_cases:
  obtains (get_fails) msg where "session_get e url = GetRaises msg"
  | (upload_fails) chunks msg where "session_get e url = GetOk chunks" "upload_fileobj_raises e s3_key = Some msg"
  | (ok) chunks where "session_get e url = GetOk chunks" "upload_fileobj_raises e s3_key = None"
  by (cases "session_get e url"; cases "upload_fileobj_raises e s3_key") auto

lemma download_and_store_calls:
  "\<exists>rest. calls (snd (snd (download_and_store e url filename s3_key (d, w)))) = calls w @ GET url # rest"
  by (rule download_and_store_cases[where e=e and url=url and ?s3_key=s3_key])
     (simp_all add: download_and_store_get_fails download_and_store_upload_fails download_and_store_ok)

lemma download_and_store_not_skipped:
  "\<not> is_skipped (fst (download_and_store e url filename s3_key (d, w)))"
  by (rule download_and_store_cases[where e=e and url=url and ?s3_key=s3_key])
     (simp_all add: download_and_store_get_fails download_and_store_upload_fails download_and_store_ok)

text \<open>The paths of \<open>download_and_upload_file\<close>.\<close>

lemma dauf_unparsed:
  "urlparse_path e url = None \<Longrightarrow>
   download_and_upload_file e url p (d, w) = (Raised ''UnboundLocalError'', (d, w))"
  by (simp add: download_and_upload_file_def)

lemma dauf_head_fails:
  "urlparse_path e url = Some path \<Longrightarrow> session_head e url = HeadRaises msg \<Longrightarrow>
   download_and_upload_file e url p (d, w) =
     (Returned False (basename path)
        (Some (''Failed to fetch headers for '' @ basename path @ '': '' @ msg)),
      (d\<lparr>failed_count := failed_count d + 1\<rparr>, w\<lparr>calls := calls w @ [HEAD url]\<rparr>))"
  by (simp add: download_and_upload_file_def Let_def)

lemma dauf_bad_length:
  "urlparse_path e url = Some path \<Longrightarrow> session_head e url = HeadOk h \<Longrightarrow>
   content_length_int h = Inl msg \<Longrightarrow>
   download_and_upload_file e url p (d, w) =
     (Returned False (basename path) (Some (''Upload error: '' @ msg)),
      (d\<lparr>failed_count := failed_count d + 1\<rparr>, w\<lparr>calls := calls w @ [HEAD url]\<rparr>))"
  by (simp add: download_and_upload_file_def Let_def upload_error_def)

lemma dauf_head_object_fails:
  "urlparse_path e url = Some path \<Longrightarrow> session_head e url = HeadOk h \<Longrightarrow>
   content_length_int h = Inr remote_size \<Longrightarrow>
   head_object_raises e (p @ basename path) = Some ex \<Longrightarrow>
   ex = OtherError msg \<or> (ex = ClientError code msg \<and> code \<noteq> ''404'') \<Longrightarrow>
   download_and_upload_file e url p (d, w) =
     (Returned False (basename path) (Some (''Upload error: '' @ msg)),
      (d\<lparr>failed_count := failed_count d + 1\<rparr>,
       w\<lparr>calls := calls w @ [HEAD url, HeadObject (p @ basename path)]\<rparr>))"
  by (auto simp add: download_and_upload_file_def Let_def upload_error_def head_object_def)

lemma dauf_skip:
  "urlparse_path e url = Some path \<Longrightarrow> session_head e url = HeadOk h \<Longrightarrow>
   content_length_int h = Inr remote_size \<Longrightarrow>
   head_object_raises e (p @ basename path) = None \<Longrightarrow>
   objects w (p @ basename path) = Some obj \<Longrightarrow>
   (case ContentLength obj of Some n \<Rightarrow> n | None \<Rightarrow> - 1) = remote_size \<Longrightarrow>
   download_and_upload_file e url p (d, w) =
     (Returned True (basename path) (Some ''Already exists and matches size''),
      (d, w\<lparr>calls := calls w @ [HEAD url, HeadObject (p @ basename path)]\<rparr>))"
  by (simp add: download_and_upload_file_def Let_def head_object_def)

lemma dauf_differs:
  "urlparse_path e url = Some path \<Longrightarrow> session_head e url = HeadOk h \<Longrightarrow>
   content_length_int h = Inr remote_size \<Longrightarrow>
   head_object_raises e (p @ basename path) = None \<Longrightarrow>
   objects w (p @ basename path) = Some obj \<Longrightarrow>
   (case ContentLength obj of Some n \<Rightarrow> n | None \<Rightarrow> - 1) \<noteq> remote_size \<Longrightarrow>
   download_and_upload_file e url p (d, w) =
     download_and_store e url (basename path) (p @ basename path)
       (d, w\<lparr>calls := calls w @ [HEAD url, HeadObject (p @ basename path)]\<rparr>)"
  by (simp add: download_and_upload_file_def Let_def head_object_def)

lemma dauf_absent:
  "urlparse_path e url = Some path \<Longrightarrow> session_head e url = HeadOk h \<Longrightarrow>
   content_length_int h = Inr remote_size \<Longrightarrow>
   head_object_raises e (p @ basename path) = None \<Longrightarrow>
   objects w (p @ basename path) = None \<Longrightarrow>
   download_and_upload_file e url p (d, w) =
     download_and_store e url (basename path) (p @ basename path)
       (d, w\<lparr>calls := calls w @ [HEAD url, HeadObject (p @ basename path)]\<rparr>)"
  by (simp add: download_and_upload_file_def Let_def head_object_def)

lemma dauf_404:
  "urlparse_path e url = Some path \<Longrightarrow> session_head e url = HeadOk h \<Longrightarrow>
   content_length_int h = Inr remote_size \<Longrightarrow>
   head_object_raises e (p @ basename path) = Some (ClientError ''404'' msg) \<Longrightarrow>
   download_and_upload_file e url p (d, w) =
     download_and_store e url (basename path) (p @ basename path)
       (d, w\<lparr>calls := calls w @ [HEAD url, HeadObject (p @ basename path)]\<rparr>)"
  by (simp add: download_and_upload_file_def Let_def head_object_def)

text \<open>
  C1: for a URL that \<open>urlparse\<close> accepts, whose HEAD request succeeds with the size
  \<open>remote_size\<close>, and with a bucket that answers \<open>head_object\<close>: if the object with key
  \<open>p + basename(path)\<close> exists and its \<open>ContentLength\<close> is \<open>remote_size\<close>, the method
  returns success with the message of the skip, sends no GET request and stores nothing
  (the bucket and the counters are as before); if the object is absent or its size differs,
  a GET request is sent, and when the body arrives and the upload completes, the whole body
  (all chunks, in order) is stored under that key.
\<close>

theorem download_and_upload_file_dedup:
  assumes "urlparse_path e url = Some path"
    and "session_head e url = HeadOk h"
    and "content_length_int h = Inr remote_size"
    and "head_object_raises e (p @ basename path) = None"
  shows "(\<forall>obj. objects w (p @ basename path) = Some obj \<and> ContentLength obj = Some remote_size \<longrightarrow>
            download_and_upload_file e url p (d, w) =
              (Returned True (basename path) (Some ''Already exists and matches size''),
               (d, w\<lparr>calls := calls w @ [HEAD url, HeadObject (p @ basename path)]\<rparr>)))
       \<and> (objects w (p @ basename path) = None
            \<or> (\<exists>obj. objects w (p @ basename path) = Some obj
                  \<and> (case ContentLength obj of Some n \<Rightarrow> n | None \<Rightarrow> - 1) \<noteq> remote_size) \<longrightarrow>
            (\<exists>rest. calls (snd (snd (download_and_upload_file e url p (d, w)))) =
                      calls w @ [HEAD url, HeadObject (p @ basename path), GET url] @ rest)
            \<and> (\<forall>chunks. session_get e url = GetOk chunks \<and> upload_fileobj_raises e (p @ basename path) = None \<longrightarrow>
                  download_and_upload_file e url p (d, w) =
                    (Returned True (basename path) None,
                     (d\<lparr>downloaded_count := downloaded_count d + 1,
                        total_size := total_size d + int (length (concat chunks))\<rparr>,
                      w\<lparr>objects := (objects w)(p @ basename path \<mapsto>
                                     stored_object e url (basename path) (concat chunks)),
                        calls := calls w @ [HEAD url, HeadObject (p @ basename path), GET url,
                                  Uploaded (p @ basename path)
                                    (stored_object e url (basename path) (concat chunks))]\<rparr>))))"
proof (intro conjI allI impI)
  fix obj
  assume "objects w (p @ basename path) = Some obj \<and> ContentLength obj = Some remote_size"
  then show "download_and_upload_file e url p (d, w) =
              (Returned True (basename path) (Some ''Already exists and matches size''),
               (d, w\<lparr>calls := calls w @ [HEAD url, HeadObject (p @ basename path)]\<rparr>))"
    using assms by (simp add: dauf_skip)
next
  assume a: "objects w (p @ basename path) = None
            \<or> (\<exists>obj. objects w (p @ basename path) = Some obj
                  \<and> (case ContentLength obj of Some n \<Rightarrow> n | None \<Rightarrow> - 1) \<noteq> remote_size)"
  then have eq: "download_and_upload_file e url p (d, w) =
     download_and_store e url (basename path) (p @ basename path)
       (d, w\<lparr>calls := calls w @ [HEAD url, HeadObject (p @ basename path)]\<rparr>)"
    using assms dauf_absent dauf_differs by blast
  show "\<exists>rest. calls (snd (snd (download_and_upload_file e url p (d, w)))) =
                      calls w @ [HEAD url, HeadObject (p @ basename path), GET url] @ rest"
    using download_and_store_calls[of e url "basename path" "p @ basename path" d
        "w\<lparr>calls := calls w @ [HEAD url, HeadObject (p @ basename path)]\<rparr>"]
    by (simp add: eq)
  fix chunks
  assume "session_get e url = GetOk chunks \<and> upload_fileobj_raises e (p @ basename path) = None"
  then show "download_and_upload_file e url p (d, w) =
                    (Returned True (basename path) None,
                     (d\<lparr>downloaded_count := downloaded_count d + 1,
                        total_size := total_size d + int (length (concat chunks))\<rparr>,
                      w\<lparr>objects := (objects w)(p @ basename path \<mapsto>
                                     stored_object e url (basename path) (concat chunks)),
                        calls := calls w @ [HEAD url, HeadObject (p @ basename path), GET url,
                                  Uploaded (p @ basename path)
                                    (stored_object e url (basename path) (concat chunks))]\<rparr>))"
    by (simp add: eq download_and_store_ok)
qed

text \<open>Every path of the method, by what the environment answers.\<close>

lemma dauf_cases:
  obtains (unparsed) "urlparse_path e url = None"
  | (head_fails) path msg where "urlparse_path e url = Some path" "session_head e url = HeadRaises msg"
  | (bad_length) path h msg where "urlparse_path e url = Some path" "session_head e url = HeadOk h"
      "content_length_int h = Inl msg"
  | (s3_fails) path h remote_size ex code msg where "urlparse_path e url = Some path"
      "session_head e url = HeadOk h" "content_length_int h = Inr remote_size"
      "head_object_raises e (p @ basename path) = Some ex"
      "ex = OtherError msg \<or> (ex = ClientError code msg \<and> code \<noteq> ''404'')"
  | (skip) path h remote_size obj where "urlparse_path e url = Some path"
      "session_head e url = HeadOk h" "content_length_int h = Inr remote_size"
      "head_object_raises e (p @ basename path) = None"
      "objects w (p @ basename path) = Some obj"
      "(case ContentLength obj of Some n \<Rightarrow> n | None \<Rightarrow> - 1) = remote_size"
  | (store) path h remote_size where "urlparse_path e url = Some path"
      "session_head e url = HeadOk h" "content_length_int h = Inr remote_size"
      "download_and_upload_file e url p (d, w) =
         download_and_store e url (basename path) (p @ basename path)
           (d, w\<lparr>calls := calls w @ [HEAD url, HeadObject (p @ basename path)]\<rparr>)"
proof (cases "urlparse_path e url")
  case None
  then show ?thesis by (rule unparsed)
next
  case (Some path)
  note path = this
  show ?thesis
  proof (cases "session_head e url")
    case (HeadRaises msg)
    with path show ?thesis by (rule head_fails)
  next
    case (HeadOk h)
    note h = this
    show ?thesis
    proof (cases "content_length_int h")
      case (Inl msg)
      with path h show ?thesis by (rule bad_length)
    next
      case (Inr remote_size)
      note r = this
      show ?thesis
      proof (cases "head_object_raises e (p @ basename path)")
        case None
        note n = this
        show ?thesis
        proof (cases "objects w (p @ basename path)")
          case None
          then show ?thesis using store[OF path h r] dauf_absent[OF path h r n] by blast
        next
          case (Some obj)
          then show ?thesis
            using skip[OF path h r n] store[OF path h r] dauf_differs[OF path h r n] by blast
        qed
      next
        case (Some ex)
        note ex = this
        show ?thesis
        proof (cases ex)
          case (ClientError code msg)
          show ?thesis
          proof (cases "code = ''404''")
            case True
            then show ?thesis
              using store[OF path h r] dauf_404[OF path h r] ex ClientError by blast
          next
            case False
            then show ?thesis using s3_fails[OF path h r ex] ClientError by blast
          qed
        next
          case (OtherError msg)
          then show ?thesis using s3_fails[OF path h r ex] by blast
        qed
      qed
    qed
  qed
qed

lemma download_and_store_step:
  "step_ok e url filename s3_key (d, w) (download_and_store e url filename s3_key (d, w))"
  by (rule download_and_store_cases[where e=e and url=url and ?s3_key=s3_key])
     (simp_all add: download_and_store_get_fails download_and_store_upload_fails
        download_and_store_ok step_ok_def uploaded_bytes_def stored_object_def)

lemma step_ok_extend:
  assumes "step_ok e url filename s3_key (d, w\<lparr>calls := calls w @ pre\<rparr>) rs"
    and "uploaded_bytes pre = 0" and "\<forall>k obj. Uploaded k obj \<notin> set pre"
  shows "step_ok e url filename s3_key (d, w) rs"
proof -
  obtain r d' w' where rs: "rs = (r, (d', w'))" by (cases rs) auto
  from assms(1) obtain new where new: "calls w' = (calls w @ pre) @ new"
      "total_size d' = total_size d + uploaded_bytes new"
      "\<forall>k obj. Uploaded k obj \<in> set new \<longrightarrow>
                 k = s3_key \<and> objects w' k = Some obj
                 \<and> (\<exists>chunks. session_get e url = GetOk chunks
                       \<and> obj = stored_object e url filename (concat chunks))"
    unfolding step_ok_def rs by auto
  have "calls w' = calls w @ (pre @ new)" using new(1) by simp
  moreover have "total_size d' = total_size d + uploaded_bytes (pre @ new)"
    using new(2) assms(2) by (simp add: uploaded_bytes_def)
  moreover have "\<forall>k obj. Uploaded k obj \<in> set (pre @ new) \<longrightarrow>
                 k = s3_key \<and> objects w' k = Some obj
                 \<and> (\<exists>chunks. session_get e url = GetOk chunks
                       \<and> obj = stored_object e url filename (concat chunks))"
    using new(3) assms(3) by auto
  ultimately show ?thesis
    using assms(1) unfolding step_ok_def rs by (simp del: append_assoc)
qed

lemma dauf_step:
  assumes "urlparse_path e url = Some path"
  shows "step_ok e url (basename path) (p @ basename path) (d, w) (download_and_upload_file e url p (d, w))"
proof (cases rule: dauf_cases[where e=e and url=url and p=p and w=w and d=d])
  case unparsed
  with assms show ?thesis by simp
next
  case (head_fails path' msg)
  with assms show ?thesis
    by (simp add: dauf_head_fails step_ok_def uploaded_bytes_def)
next
  case (bad_length path' h msg)
  with assms show ?thesis
    by (simp add: dauf_bad_length step_ok_def uploaded_bytes_def)
next
  case (s3_fails path' h remote_size ex code msg)
  with assms have "download_and_upload_file e url p (d, w) =
     (Returned False (basename path) (Some (''Upload error: '' @ msg)),
      (d\<lparr>failed_count := failed_count d + 1\<rparr>,
       w\<lparr>calls := calls w @ [HEAD url, HeadObject (p @ basename path)]\<rparr>))"
    using dauf_head_object_fails[of e url path h remote_size p ex msg code d w] by simp
  then show ?thesis by (simp add: step_ok_def uploaded_bytes_def)
next
  case (skip path' h remote_size obj)
  with assms have "download_and_upload_file e url p (d, w) =
     (Returned True (basename path) (Some ''Already exists and matches size''),
      (d, w\<lparr>calls := calls w @ [HEAD url, HeadObject (p @ basename path)]\<rparr>))"
    using dauf_skip[of e url path h remote_size p w obj d] by simp
  then show ?thesis by (simp add: step_ok_def uploaded_bytes_def)
next
  case (store path' h remote_size)
  with assms have eq: "download_and_upload_file e url p (d, w) =
         download_and_store e url (basename path) (p @ basename path)
           (d, w\<lparr>calls := calls w @ [HEAD url, HeadObject (p @ basename path)]\<rparr>)" by simp
  show ?thesis
    unfolding eq
    by (rule step_ok_extend[where pre = "[HEAD url, HeadObject (p @ basename path)]"])
       (simp_all add: download_and_store_step[of e url "basename path" "p @ basename path" d
          "w\<lparr>calls := calls w @ [HEAD url, HeadObject (p @ basename path)]\<rparr>", simplified]
          uploaded_bytes_def)
qed

lemma new_calls_append: "calls w' = calls w @ new \<Longrightarrow> new_calls w w' = new"
  by (simp add: new_calls_def)

lemma nat_of_digits_snoc: "nat_of_digits (cs @ [c]) = 10 * nat_of_digits cs + (of_char c - 48)"
  by (induction cs) (simp_all add: algebra_simps)

lemma str_nat_value: "nat_of_digits (str_nat n) = n"
proof (induction n rule: str_nat.induct)
  case (1 n)
  show ?case
  proof (cases "n < 10")
    case True
    then show ?thesis by (simp add: str_nat.simps[of n])
  next
    case False
    have "n mod 10 < 10" by simp
    then have "(of_char (char_of (48 + n mod 10)) :: nat) = 48 + n mod 10"
      by (simp del: of_char_of add: of_char_of[of "48 + n mod 10"])
    with False "1.IH" show ?thesis
      by (simp add: str_nat.simps[of n] nat_of_digits_snoc)
  qed
qed

text \<open>
  C5: every object that a call of \<open>download_and_upload_file\<close> uploads is stored under the
  key of the URL, holds the body of the GET response, has the \<open>ContentType\<close> that
  \<open>get_content_type\<close> gives for the file name, and the metadata \<open>source_url\<close> (the URL),
  \<open>download_date\<close> (the time stamp) and \<open>content_length\<close> (the number of bytes of the
  body, in decimal).
\<close>

theorem uploaded_object_attributes:
  assumes "Uploaded key obj \<in> set (new_calls w (snd (snd (download_and_upload_file e url p (d, w)))))"
  shows "\<exists>path chunks.
           urlparse_path e url = Some path \<and> session_get e url = GetOk chunks
           \<and> key = p @ basename path
           \<and> objects (snd (snd (download_and_upload_file e url p (d, w)))) key = Some obj
           \<and> Body obj = concat chunks
           \<and> ContentType obj = get_content_type (basename path)
           \<and> Metadata obj = [(''source_url'', url), (''download_date'', strftime e),
                              (''content_length'', str_nat (length (Body obj)))]"
proof (cases "urlparse_path e url")
  case None
  with assms show ?thesis by (simp add: dauf_unparsed new_calls_def)
next
  case (Some path)
  obtain r d' w' where rs: "download_and_upload_file e url p (d, w) = (r, (d', w'))"
    by (cases "download_and_upload_file e url p (d, w)") auto
  from dauf_step[OF Some, of p d w] obtain new where new: "calls w' = calls w @ new"
    "\<forall>k obj. Uploaded k obj \<in> set new \<longrightarrow>
                 k = p @ basename path \<and> objects w' k = Some obj
                 \<and> (\<exists>chunks. session_get e url = GetOk chunks
                       \<and> obj = stored_object e url (basename path) (concat chunks))"
    unfolding step_ok_def rs by auto
  from assms have "Uploaded key obj \<in> set new"
    by (simp add: rs new_calls_append[OF new(1)])
  with new(2) obtain chunks where "key = p @ basename path" "objects w' key = Some obj"
    "session_get e url = GetOk chunks" "obj = stored_object e url (basename path) (concat chunks)"
    by blast
  then show ?thesis using Some by (simp add: rs stored_object_def)
qed

text \<open>
  C9: when the HEAD response has no \<open>content-length\<close> header the remote size is taken to
  be 0: a stored object is skipped exactly when its \<open>ContentLength\<close> is 0; an object of
  another size, or one whose \<open>head_object\<close> response has no \<open>ContentLength\<close> (taken as -1),
  is not skipped: the GET request is sent, and when the body arrives and the upload completes
  the object is replaced.
\<close>

theorem missing_content_length_is_zero:
  assumes "urlparse_path e url = Some path"
    and "session_head e url = HeadOk None"
    and "head_object_raises e (p @ basename path) = None"
    and "objects w (p @ basename path) = Some obj"
  shows "(ContentLength obj = Some 0 \<longrightarrow>
            download_and_upload_file e url p (d, w) =
              (Returned True (basename path) (Some ''Already exists and matches size''),
               (d, w\<lparr>calls := calls w @ [HEAD url, HeadObject (p @ basename path)]\<rparr>)))
       \<and> (ContentLength obj \<noteq> Some 0 \<longrightarrow>
            \<not> is_skipped (fst (download_and_upload_file e url p (d, w)))
            \<and> (\<exists>rest. calls (snd (snd (download_and_upload_file e url p (d, w)))) =
                      calls w @ [HEAD url, HeadObject (p @ basename path), GET url] @ rest)
            \<and> (\<forall>chunks. session_get e url = GetOk chunks \<and> upload_fileobj_raises e (p @ basename path) = None \<longrightarrow>
                  download_and_upload_file e url p (d, w) =
                    (Returned True (basename path) None,
                     (d\<lparr>downloaded_count := downloaded_count d + 1,
                        total_size := total_size d + int (length (concat chunks))\<rparr>,
                      w\<lparr>objects := (objects w)(p @ basename path \<mapsto>
                                     stored_object e url (basename path) (concat chunks)),
                        calls := calls w @ [HEAD url, HeadObject (p @ basename path), GET url,
                                  Uploaded (p @ basename path)
                                    (stored_object e url (basename path) (concat chunks))]\<rparr>))))"
proof (intro conjI allI impI)
  have cl: "content_length_int None = Inr 0" by (simp add: content_length_int_def)
  {
    assume "ContentLength obj = Some 0"
    then show "download_and_upload_file e url p (d, w) =
              (Returned True (basename path) (Some ''Already exists and matches size''),
               (d, w\<lparr>calls := calls w @ [HEAD url, HeadObject (p @ basename path)]\<rparr>))"
      using dauf_skip[OF assms(1,2) cl assms(3,4)] by simp
  }
  assume "ContentLength obj \<noteq> Some 0"
  then have "(case ContentLength obj of Some n \<Rightarrow> n | None \<Rightarrow> - 1) \<noteq> 0"
    by (cases "ContentLength obj") auto
  then have eq: "download_and_upload_file e url p (d, w) =
     download_and_store e url (basename path) (p @ basename path)
       (d, w\<lparr>calls := calls w @ [HEAD url, HeadObject (p @ basename path)]\<rparr>)"
    using dauf_differs[OF assms(1,2) cl assms(3,4)] by simp
  show "\<not> is_skipped (fst (download_and_upload_file e url p (d, w)))"
    by (simp add: eq download_and_store_not_skipped)
  show "\<exists>rest. calls (snd (snd (download_and_upload_file e url p (d, w)))) =
                      calls w @ [HEAD url, HeadObject (p @ basename path), GET url] @ rest"
    using download_and_store_calls[of e url "basename path" "p @ basename path" d
        "w\<lparr>calls := calls w @ [HEAD url, HeadObject (p @ basename path)]\<rparr>"]
    by (simp add: eq)
  fix chunks
  assume "session_get e url = GetOk chunks \<and> upload_fileobj_raises e (p @ basename path) = None"
  then show "download_and_upload_file e url p (d, w) =
                    (Returned True (basename path) None,
                     (d\<lparr>downloaded_count := downloaded_count d + 1,
                        total_size := total_size d + int (length (concat chunks))\<rparr>,
                      w\<lparr>objects := (objects w)(p @ basename path \<mapsto>
                                     stored_object e url (basename path) (concat chunks)),
                        calls := calls w @ [HEAD url, HeadObject (p @ basename path), GET url,
                                  Uploaded (p @ basename path)
                                    (stored_object e url (basename path) (concat chunks))]\<rparr>))"
    by (simp add: eq download_and_store_ok)
qed


lemma ex_path: "urlparse_path ex_env ex_url = Some ''/files/research/mlk/104-10001.pdf''"
  by (simp add: ex_env_def ex_url_def)

lemma ex_basename: "basename ''/files/research/mlk/104-10001.pdf'' = ''104-10001.pdf''"
  by code_simp


theorem download_and_upload_file_dedup_witness:
  "download_and_upload_file ex_env ex_url ''mlk-archive/'' (ex_downloader, ex_stored_world) =
     (Returned True ''104-10001.pdf'' (Some ''Already exists and matches size''),
      (ex_downloader,
       ex_stored_world\<lparr>calls := [HEAD ex_url, HeadObject ''mlk-archive/104-10001.pdf'']\<rparr>))
   \<and> download_and_upload_file ex_env ex_url ''mlk-archive/'' (ex_downloader, ex_empty_world) =
     (Returned True ''104-10001.pdf'' None,
      (ex_downloader\<lparr>downloaded_count := 1, total_size := 3\<rparr>,
       \<lparr>objects = [''mlk-archive/104-10001.pdf'' \<mapsto> ex_object],
        calls = [HEAD ex_url, HeadObject ''mlk-archive/104-10001.pdf'', GET ex_url,
                 Uploaded ''mlk-archive/104-10001.pdf'' ex_object]\<rparr>))"
proof -
  have h: "session_head ex_env ex_url = HeadOk (Some (IntText 3))" by (simp add: ex_env_def)
  have c: "content_length_int (Some (IntText 3)) = Inr 3" by (simp add: content_length_int_def)
  have r: "head_object_raises ex_env (''mlk-archive/'' @ basename ''/files/research/mlk/104-10001.pdf'') = None"
    by (simp add: ex_env_def)
  have g: "session_get ex_env ex_url = GetOk [[1, 2], [3]]"
    "upload_fileobj_raises ex_env ''mlk-archive/104-10001.pdf'' = None"
    by (simp_all add: ex_env_def)
  have o: "objects ex_stored_world ''mlk-archive/104-10001.pdf'' = Some ex_object"
    "ContentLength ex_object = Some 3" "objects ex_empty_world ''mlk-archive/104-10001.pdf'' = None"
    by (simp_all add: ex_stored_world_def ex_empty_world_def ex_object_def stored_object_def)
  show ?thesis
    using download_and_upload_file_dedup[OF ex_path h c r, of ex_stored_world ex_downloader]
      download_and_upload_file_dedup[OF ex_path h c r, of ex_empty_world ex_downloader]
      g o
    by (simp add: ex_basename ex_object_def ex_downloader_def ex_stored_world_def ex_empty_world_def)
qed

lemma ex_empty_calls: "calls ex_empty_world = []"
  by (simp add: ex_empty_world_def)

lemma ex_content_type: "get_content_type ''104-10001.pdf'' = ''application/pdf''"
  by code_simp

lemma ex_str_nat: "str_nat 3 = ''3''"
  by code_simp

lemma ex_skip_run:
  "download_and_upload_file ex_env ex_url ''mlk-archive/'' (ex_downloader, ex_stored_world) =
     (Returned True ''104-10001.pdf'' (Some ''Already exists and matches size''),
      (ex_downloader,
       ex_stored_world\<lparr>calls := [HEAD ex_url, HeadObject ''mlk-archive/104-10001.pdf'']\<rparr>))"
  using dauf_skip[OF ex_path, of "Some (IntText 3)" 3 "''mlk-archive/''" ex_stored_world ex_object ex_downloader]
  by (simp add: ex_basename ex_env_def content_length_int_def ex_stored_world_def ex_object_def
      stored_object_def)

lemma ex_upload_run:
  "download_and_upload_file ex_env ex_url ''mlk-archive/'' (ex_downloader, ex_empty_world) =
     (Returned True ''104-10001.pdf'' None,
      (ex_downloader\<lparr>downloaded_count := 1, total_size := 3\<rparr>,
       \<lparr>objects = [''mlk-archive/104-10001.pdf'' \<mapsto> ex_object],
        calls = [HEAD ex_url, HeadObject ''mlk-archive/104-10001.pdf'', GET ex_url,
                 Uploaded ''mlk-archive/104-10001.pdf'' ex_object]\<rparr>))"
proof -
  have "download_and_upload_file ex_env ex_url ''mlk-archive/'' (ex_downloader, ex_empty_world) =
     download_and_store ex_env ex_url ''104-10001.pdf'' ''mlk-archive/104-10001.pdf''
       (ex_downloader, ex_empty_world\<lparr>calls := calls ex_empty_world
          @ [HEAD ex_url, HeadObject ''mlk-archive/104-10001.pdf'']\<rparr>)"
    using dauf_absent[OF ex_path, of "Some (IntText 3)" 3 "''mlk-archive/''" ex_empty_world ex_downloader]
    by (simp add: ex_basename ex_env_def content_length_int_def ex_empty_world_def)
  moreover have "session_get ex_env ex_url = GetOk [[1, 2], [3]]"
    "upload_fileobj_raises ex_env ''mlk-archive/104-10001.pdf'' = None"
    by (simp_all add: ex_env_def)
  ultimately show ?thesis
    by (simp add: download_and_store_ok ex_object_def ex_downloader_def ex_empty_world_def)
qed

theorem uploaded_object_attributes_witness:
  "Uploaded ''mlk-archive/104-10001.pdf'' ex_object
     \<in> set (new_calls ex_empty_world
              (snd (snd (download_and_upload_file ex_env ex_url ''mlk-archive/''
                           (ex_downloader, ex_empty_world)))))
   \<and> ContentType ex_object = ''application/pdf''
   \<and> Metadata ex_object = [(''source_url'', ex_url), (''download_date'', ''2025-07-22 13:38:07''),
                            (''content_length'', ''3'')]"
proof -
  have up: "Uploaded ''mlk-archive/104-10001.pdf'' ex_object
     \<in> set (new_calls ex_empty_world
              (snd (snd (download_and_upload_file ex_env ex_url ''mlk-archive/''
                           (ex_downloader, ex_empty_world)))))"
    by (simp add: ex_upload_run new_calls_def ex_empty_calls)
  have len: "length (Body ex_object) = 3" by (simp add: ex_object_def stored_object_def)
  have t: "strftime ex_env = ''2025-07-22 13:38:07''" by (simp add: ex_env_def)
  from uploaded_object_attributes[OF up] obtain path where path:
    "urlparse_path ex_env ex_url = Some path"
    "ContentType ex_object = get_content_type (basename path)"
    "Metadata ex_object = [(''source_url'', ex_url), (''download_date'', strftime ex_env),
                           (''content_length'', str_nat (length (Body ex_object)))]"
    by blast
  from path(1) ex_path have "path = ''/files/research/mlk/104-10001.pdf''" by simp
  with path(2,3) have "ContentType ex_object = ''application/pdf''"
    "Metadata ex_object = [(''source_url'', ex_url), (''download_date'', ''2025-07-22 13:38:07''),
                            (''content_length'', ''3'')]"
    by (simp_all add: ex_basename ex_content_type ex_str_nat len t)
  with up show ?thesis by simp
qed

theorem missing_content_length_is_zero_witness:
  "download_and_upload_file (ex_env\<lparr>session_head := (\<lambda>url. HeadOk None)\<rparr>) ex_url ''mlk-archive/''
     (ex_downloader,
      \<lparr>objects = [''mlk-archive/104-10001.pdf'' \<mapsto> ex_object\<lparr>Body := [], ContentLength := Some 0\<rparr>],
       calls = []\<rparr>)
     = (Returned True ''104-10001.pdf'' (Some ''Already exists and matches size''),
        (ex_downloader,
         \<lparr>objects = [''mlk-archive/104-10001.pdf'' \<mapsto> ex_object\<lparr>Body := [], ContentLength := Some 0\<rparr>],
          calls = [HEAD ex_url, HeadObject ''mlk-archive/104-10001.pdf'']\<rparr>))
   \<and> fst (download_and_upload_file (ex_env\<lparr>session_head := (\<lambda>url. HeadOk None)\<rparr>) ex_url ''mlk-archive/''
            (ex_downloader, ex_stored_world))
     = Returned True ''104-10001.pdf'' None"
proof -
  let ?e = "ex_env\<lparr>session_head := (\<lambda>url. HeadOk None)\<rparr>"
  let ?w0 = "\<lparr>objects = [''mlk-archive/104-10001.pdf'' \<mapsto> ex_object\<lparr>Body := [], ContentLength := Some 0\<rparr>],
       calls = []\<rparr>"
  have p: "urlparse_path ?e ex_url = Some ''/files/research/mlk/104-10001.pdf''"
    using ex_path by (simp add: ex_env_def)
  have h: "session_head ?e ex_url = HeadOk None" by simp
  have r: "head_object_raises ?e (''mlk-archive/'' @ basename ''/files/research/mlk/104-10001.pdf'') = None"
    by (simp add: ex_env_def)
  have o0: "objects ?w0 (''mlk-archive/'' @ basename ''/files/research/mlk/104-10001.pdf'')
      = Some (ex_object\<lparr>Body := [], ContentLength := Some 0\<rparr>)"
    by (simp add: ex_basename)
  have o3: "objects ex_stored_world (''mlk-archive/'' @ basename ''/files/research/mlk/104-10001.pdf'')
      = Some ex_object"
    by (simp add: ex_basename ex_stored_world_def)
  have g: "session_get ?e ex_url = GetOk [[1, 2], [3]]"
    "upload_fileobj_raises ?e ''mlk-archive/104-10001.pdf'' = None"
    "ContentLength ex_object = Some 3"
    by (simp_all add: ex_env_def ex_object_def stored_object_def)
  show ?thesis
    using missing_content_length_is_zero[OF p h r o0, of ex_downloader]
      missing_content_length_is_zero[OF p h r o3, of ex_downloader] g
    by (simp add: ex_basename)
qed

section \<open>The downloader: the worker pool\<close>

text \<open>A task run alone does what the method does.\<close>

lemma run_task_finished: "run_task n e p (Finished r) s = (Finished r, s)"
  by (induction n) (cases s; simp)+

lemma run_task_is_method:
  "run_task 9 e p (Submitted url) s =
     (Finished (fst (download_and_upload_file e url p s)), snd (download_and_upload_file e url p s))"
proof -
  obtain d w where s: "s = (d, w)" by (cases s)
  show ?thesis
    unfolding s
    by (auto simp: eval_nat_numeral run_task_finished download_and_upload_file_def
        download_and_store_def upload_error_def download_error_def Let_def
        split: option.splits head_outcome.splits sum.splits s3_exception.splits
          get_outcome.splits)
qed

subsection \<open>The invariant\<close>





text \<open>What one step of a task does to the counters and the trace.\<close>

lemma task_step_counts:
  assumes "task_step e p t (d, w) = (t', (d', w'))"
  shows "\<exists>ev. calls w' = calls w @ ev
           \<and> downloaded_count d' + pending_count t' = seen_count d t + pending_count t + int (count_uploads ev)
           \<and> total_size d' + pending_size t' = seen_size d t + pending_size t + uploaded_bytes ev
           \<and> failed_count d' = seen_failed d t + has_failed t' - has_failed t
           \<and> has_uploaded t' = has_uploaded t + int (count_uploads ev)
           \<and> max_workers d' = max_workers d
           \<and> (\<forall>k obj. objects w' k = Some obj \<longrightarrow> objects w k = Some obj \<or> Uploaded k obj \<in> set ev)"
  using assms
  by (cases t)
     (auto simp: Let_def count_uploads_def uploaded_bytes_def
        split: option.splits head_outcome.splits sum.splits s3_exception.splits
          get_outcome.splits if_splits)


lemma task_step_not_submitted: "\<not> submitted (fst (task_step e p t s))"
  by (cases t; cases s)
     (auto simp: Let_def split: option.splits head_outcome.splits sum.splits s3_exception.splits
        get_outcome.splits)

lemma task_step_finished: "finished t \<Longrightarrow> task_step e p t s = (t, s)"
  by (cases t; cases s) simp_all








subsection \<open>One worker\<close>








subsection \<open>Schedules, and the end of a run\<close>

lemma run_schedule_sound:
  "run_schedule e schedule c = Some c' \<Longrightarrow> rtranclp (pool_step e) c c'"
proof (induction schedule arbitrary: c)
  case Nil
  then show ?case by simp
next
  case (Cons i schedule)
  obtain tasks s where c: "c = (tasks, s)" by (cases c)
  obtain t' s' where st: "task_step e ''mlk-archive/'' (tasks ! i) s = (t', s')"
    by (cases "task_step e ''mlk-archive/'' (tasks ! i) s")
  from Cons.prems c st have ok: "i < length tasks" "may_run tasks i s"
    and rest: "run_schedule e schedule (tasks[i := t'], s') = Some c'"
    by (auto split: if_splits)
  have "pool_step e (tasks, s) (tasks[i := t'], s')"
    using ok st by (rule pool_step.intros)
  with Cons.IH[OF rest] show ?case unfolding c by (rule converse_rtranclp_into_rtranclp[rotated])
qed

lemma pool_run_task:
  assumes "i < length tasks" and "may_run tasks i s \<or> finished (tasks ! i)"
  shows "rtranclp (pool_step e) (tasks, s)
           (tasks[i := fst (run_task n e ''mlk-archive/'' (tasks ! i) s)],
            snd (run_task n e ''mlk-archive/'' (tasks ! i) s))"
  using assms
proof (induction n arbitrary: tasks s)
  case 0
  then show ?case by simp
next
  case (Suc n)
  show ?case
  proof (cases "finished (tasks ! i)")
    case True
    then obtain r where r: "tasks ! i = Finished r" by (cases "tasks ! i") auto
    moreover from r have "tasks[i := Finished r] = tasks" by (metis list_update_id)
    ultimately show ?thesis by (simp add: run_task_finished task_step_finished)
  next
    case False
    with Suc.prems have may: "may_run tasks i s" by simp
    obtain t' s' where st: "task_step e ''mlk-archive/'' (tasks ! i) s = (t', s')"
      by (cases "task_step e ''mlk-archive/'' (tasks ! i) s")
    have step: "pool_step e (tasks, s) (tasks[i := t'], s')"
      using Suc.prems(1) may st by (rule pool_step.intros)
    have "\<not> submitted t'" using task_step_not_submitted[of e "''mlk-archive/''" "tasks ! i" s] st by simp
    then have may': "may_run (tasks[i := t']) i s' \<or> finished (tasks[i := t'] ! i)"
      using Suc.prems(1) by (auto simp: may_run_def)
    have "rtranclp (pool_step e) (tasks[i := t'], s')
           ((tasks[i := t'])[i := fst (run_task n e ''mlk-archive/'' (tasks[i := t'] ! i) s')],
            snd (run_task n e ''mlk-archive/'' (tasks[i := t'] ! i) s'))"
      using Suc.prems(1) may' by (intro Suc.IH) simp_all
    then have "rtranclp (pool_step e) (tasks[i := t'], s')
           (tasks[i := fst (run_task (Suc n) e ''mlk-archive/'' (tasks ! i) s)],
            snd (run_task (Suc n) e ''mlk-archive/'' (tasks ! i) s))"
      using Suc.prems(1) st by simp
    with step show ?thesis by (rule converse_rtranclp_into_rtranclp)
  qed
qed

lemma run_task_max_workers:
  "max_workers (fst (snd (run_task n e p t s))) = max_workers (fst s)"
proof (induction n arbitrary: t s)
  case 0
  then show ?case by simp
next
  case (Suc n)
  obtain d w where s: "s = (d, w)" by (cases s)
  obtain t' d' w' where st: "task_step e p t (d, w) = (t', (d', w'))"
    by (cases "task_step e p t (d, w)") auto
  from task_step_counts[OF st] have "max_workers d' = max_workers d" by blast
  with Suc.IH[of t' "(d', w')"] show ?case by (simp add: s st)
qed

lemma no_task_running: "filter running (map Finished rs @ map Submitted urls) = []"
  by (induction rs) (simp_all add: running_def filter_empty_conv)

text \<open>Every pool can run to its end: each task in turn, to completion.\<close>

lemma pool_terminates:
  assumes "0 < max_workers (fst s)"
  shows "\<exists>tasks' s'. rtranclp (pool_step e) (map Finished rs @ map Submitted urls, s) (tasks', s')
           \<and> list_all finished tasks'"
  using assms
proof (induction urls arbitrary: rs s)
  case Nil
  have "list_all finished (map Finished rs)" by (induction rs) simp_all
  then show ?case by (intro exI[of _ "map Finished rs"] exI[of _ s]) simp
next
  case (Cons url urls)
  let ?tasks = "map Finished rs @ map Submitted (url # urls)"
  let ?i = "length rs"
  have i: "?i < length ?tasks" by simp
  have ti: "?tasks ! ?i = Submitted url" by (simp add: nth_append)
  have tk: "take ?i ?tasks = map Finished rs" by simp
  have "list_all (\<lambda>t. \<not> submitted t) (map Finished rs)" by (induction rs) simp_all
  then have may: "may_run ?tasks ?i s"
    using Cons.prems no_task_running[of rs "url # urls"]
    unfolding may_run_def ti tk by simp
  let ?m = "download_and_upload_file e url ''mlk-archive/'' s"
  have "rtranclp (pool_step e) (?tasks, s)
           (?tasks[?i := fst (run_task 9 e ''mlk-archive/'' (?tasks ! ?i) s)],
            snd (run_task 9 e ''mlk-archive/'' (?tasks ! ?i) s))"
    using may by (intro pool_run_task[OF i]) simp
  then have run: "rtranclp (pool_step e) (?tasks, s) (?tasks[?i := Finished (fst ?m)], snd ?m)"
    unfolding ti run_task_is_method fst_conv snd_conv .
  have upd: "?tasks[?i := Finished (fst ?m)] = map Finished (rs @ [fst ?m]) @ map Submitted urls"
    by (simp add: list_update_append)
  have "max_workers (fst (snd ?m)) = max_workers (fst s)"
    using run_task_max_workers[of 9 e "''mlk-archive/''" "Submitted url" s]
    by (simp add: run_task_is_method)
  with Cons.prems have "0 < max_workers (fst (snd ?m))" by simp
  from Cons.IH[OF this, of "rs @ [fst ?m]"] obtain tasks' s' where
    rest: "rtranclp (pool_step e) (map Finished (rs @ [fst ?m]) @ map Submitted urls, snd ?m) (tasks', s')"
    and fin: "list_all finished tasks'" by blast
  from run rest have "rtranclp (pool_step e) (?tasks, s) (tasks', s')"
    unfolding upd by (rule rtranclp_trans)
  with fin show ?case by blast
qed

text \<open>
  So the method returns whenever the file can be read, the bucket is ready and
  \<open>max_workers\<close> is positive; and every schedule that finishes all tasks is one of its runs.
\<close>

lemma download_from_url_file_returns:
  assumes "fs url_file_path = Some text" and "bucket_ready e = None" and "0 < max_workers (fst s)"
  shows "\<exists>s'. download_from_url_file e fs url_file_path s (Inr s')"
  using pool_terminates[OF assms(3), of e "[]" "read_urls text"] assms
  by (auto simp: download_from_url_file_def)

lemma download_from_url_file_schedule:
  assumes "fs url_file_path = Some text" and "bucket_ready e = None" and "0 < max_workers (fst s)"
    and "run_schedule e schedule (map Submitted (read_urls text), s) = Some (tasks, s')"
    and "list_all finished tasks"
  shows "download_from_url_file e fs url_file_path s (Inr s')"
  using run_schedule_sound[OF assms(4)] assms(1,2,3,5)
  by (cases s') (auto simp: download_from_url_file_def)




subsection \<open>The counters\<close>



lemma ex_env_answers:
  "urlparse_path ex_env ex_url = Some ''/files/research/mlk/104-10001.pdf''"
  "session_head ex_env ex_url = HeadOk (Some (IntText 3))"
  "session_get ex_env ex_url = GetOk [[1, 2], [3]]"
  "head_object_raises ex_env key = None"
  "upload_fileobj_raises ex_env key = None"
  "bucket_ready ex_env = None"
  by (simp_all add: ex_env_def ex_url_def bucket_ready_def)

lemma ex_race_read: "read_urls (ex_url @ [LF] @ ex_url @ [LF]) = [ex_url, ex_url]"
  by code_simp


lemma ex_race_run:
  "run_schedule ex_env ex_race_schedule (map Submitted [ex_url, ex_url], (ex_downloader, ex_empty_world))
     = Some ([Finished (Returned True ''104-10001.pdf'' None),
              Finished (Returned True ''104-10001.pdf'' None)], ex_race_end)"
  by (simp add: ex_race_schedule_def ex_race_end_def may_run_def running_def ex_env_answers
      ex_basename head_object_def content_length_int_def Let_def ex_empty_world_def
      ex_downloader_def ex_object_def stored_object_def)




text \<open>
  With more than one worker the bounds cannot be made equalities. Two workers on the same
  URL: both find the key absent, both upload, both read each counter before either stores
  it, and one update of each counter is lost.
\<close>

lemma download_from_url_file_lost_update:
  "download_from_url_file ex_env ex_race_fs ''mlk_urls.txt'' (ex_downloader, ex_empty_world)
     (Inr ex_race_end)
   \<and> count_uploads (new_calls ex_empty_world (snd ex_race_end)) = 2
   \<and> uploaded_bytes (new_calls ex_empty_world (snd ex_race_end)) = 6
   \<and> downloaded_count (fst ex_race_end) = 1
   \<and> total_size (fst ex_race_end) = 3"
proof -
  have fl: "ex_race_fs ''mlk_urls.txt'' = Some (ex_url @ [LF] @ ex_url @ [LF])"
    by (simp add: ex_race_fs_def)
  have workers: "0 < max_workers (fst (ex_downloader, ex_empty_world))"
    by (simp add: ex_downloader_def)
  have fin: "list_all finished [Finished (Returned True ''104-10001.pdf'' None),
              Finished (Returned True ''104-10001.pdf'' None)]" by simp
  have sched: "run_schedule ex_env ex_race_schedule
      (map Submitted (read_urls (ex_url @ [LF] @ ex_url @ [LF])), (ex_downloader, ex_empty_world))
     = Some ([Finished (Returned True ''104-10001.pdf'' None),
              Finished (Returned True ''104-10001.pdf'' None)], ex_race_end)"
    unfolding ex_race_read by (rule ex_race_run)
  have run: "download_from_url_file ex_env ex_race_fs ''mlk_urls.txt'' (ex_downloader, ex_empty_world)
     (Inr ex_race_end)"
    by (rule download_from_url_file_schedule[where fs = ex_race_fs and url_file_path = "''mlk_urls.txt''",
          OF fl ex_env_answers(6) workers sched fin])
  have n: "count_uploads (new_calls ex_empty_world (snd ex_race_end)) = 2"
    "uploaded_bytes (new_calls ex_empty_world (snd ex_race_end)) = 6"
    "downloaded_count (fst ex_race_end) = 1"
    "total_size (fst ex_race_end) = 3"
    by (simp_all add: ex_race_end_def new_calls_def ex_empty_world_def count_uploads_def
        uploaded_bytes_def ex_object_def stored_object_def ex_downloader_def)
  with run show ?thesis by simp
qed

section \<open>The scraper: selecting the table\<close>

lemma two_distinct_members: "a \<in> set xs \<Longrightarrow> b \<in> set xs \<Longrightarrow> a \<noteq> b \<Longrightarrow> 2 \<le> length xs"
  by (cases xs; cases "tl xs") auto

lemma has_record_headers_length:
  "has_record_headers t \<Longrightarrow> 2 \<le> length (find_all [''th''] t)"
  using two_distinct_members[of "''Record Number''" "header_texts t" "''NARA Release Date''"]
  by (simp add: has_record_headers_def header_texts_def)

lemma find_records_table_step:
  "find_records_table (t # tables) =
     (if has_record_headers t then Some t else find_records_table tables)"
  using has_record_headers_length[of t]
  by (auto simp: has_record_headers_def header_texts_def Let_def)

lemma find_records_table_eq: "find_records_table tables = find has_record_headers tables"
  by (induction tables) (simp_all add: find_records_table_step del: find_records_table.simps(2))

lemma table_pdf_links_eq: "table_pdf_links t = filter (href_contains ''.pdf'') (find_all_a_href t)"
  by (simp add: table_pdf_links_def href_contains_def[abs_def])

lemma find_pdf_table_eq:
  "find_pdf_table tables =
     find (\<lambda>t. 10 < length (filter (href_contains ''.pdf'') (find_all_a_href t))) tables"
  by (induction tables) (simp_all add: table_pdf_links_eq Let_def)

lemma select_table_eq:
  "(if find_records_table tables = None then find_pdf_table tables
    else find_records_table tables)
   = (case find has_record_headers tables of
        Some t \<Rightarrow> Some t
      | None \<Rightarrow> find (\<lambda>t. 10 < length (filter (href_contains ''.pdf'') (find_all_a_href t))) tables)"
  by (cases "find has_record_headers tables")
     (simp_all add: find_records_table_eq find_pdf_table_eq Let_def)

lemma collect_links_eq:
  "\<forall>link \<in> set links. getitem link ''href'' \<noteq> None \<Longrightarrow>
   collect_links e links acc =
     map_option (\<lambda>rs. acc @ rs) (those (map (link_record e) (filter is_document_link links)))"
proof (induction links arbitrary: acc)
  case Nil
  then show ?case by simp
next
  case (Cons link links)
  then obtain href where href: "getitem link ''href'' = Some href" by auto
  have IH: "\<And>acc. collect_links e links acc =
     map_option (\<lambda>rs. acc @ rs) (those (map (link_record e) (filter is_document_link links)))"
    using Cons by simp
  show ?case
  proof (cases "is_document_link link")
    case False
    then have "\<not> (contains ''.pdf'' (lower href) \<or> contains ''.mp3'' (lower href))"
      using href by (simp add: is_document_link_def href_contains_def)
    then have "collect_links e (link # links) acc = collect_links e links acc"
      using href by simp
    then show ?thesis
      using False by (simp add: IH)
  next
    case True
    then have doc: "contains ''.pdf'' (lower href) \<or> contains ''.mp3'' (lower href)"
      using href by (simp add: is_document_link_def href_contains_def)
    show ?thesis
    proof (cases "link_record e link")
      case None
      then show ?thesis
        using href doc True
        by (auto simp: link_record_def split: option.splits if_splits)
    next
      case (Some r)
      then have "collect_links e (link # links) acc = collect_links e links (acc @ [r])"
        using href doc
        by (auto simp: link_record_def split: option.splits if_splits)
      then show ?thesis
        using True Some by (simp add: IH option.map_comp comp_def)
    qed
  qed
qed

lemma find_all_a_href_has_href: "link \<in> set (find_all_a_href n) \<Longrightarrow> getitem link ''href'' \<noteq> None"
  by (simp add: find_all_a_href_def)

lemma scrape_page_eq:
  "scrape_page e soup =
     (case spec_select_table soup of
        Some t \<Rightarrow> extract_rows e (drop 1 (find_all [''tr''] t)) []
      | None \<Rightarrow> spec_page_links e soup)"
proof -
  have links: "collect_links e (find_all_a_href soup) [] = spec_page_links e soup"
    using collect_links_eq[of "find_all_a_href soup" e "[]"] find_all_a_href_has_href[of _ soup]
    by (simp add: spec_page_links_def option.map_ident)
  have sel: "(if find_records_table (find_all [''table''] soup) = None
               then find_pdf_table (find_all [''table''] soup)
               else find_records_table (find_all [''table''] soup))
    = spec_select_table soup"
    by (simp only: select_table_eq spec_select_table_def Let_def)
  have "scrape_page e soup =
     (case (if find_records_table (find_all [''table''] soup) = None
            then find_pdf_table (find_all [''table''] soup)
            else find_records_table (find_all [''table''] soup)) of
        None \<Rightarrow> (case collect_links e (find_all_a_href soup) [] of
                    None \<Rightarrow> None | Some pdf_links \<Rightarrow> Some pdf_links)
      | Some t \<Rightarrow> extract_rows e (drop 1 (find_all [''tr''] t)) [])"
    by (simp add: scrape_page_def Let_def split: option.splits)
  then show ?thesis
    by (simp only: sel links) (simp split: option.splits)
qed

lemma descendants_trans:
  "d \<in> set (descendants n) \<Longrightarrow> set (descendants d) \<subseteq> set (descendants n)"
proof (induction n)
  case (NavigableString s)
  then show ?case by simp
next
  case (Tag name attrs contents)
  from Tag.prems obtain c where c: "c \<in> set contents" "d = c \<or> d \<in> set (descendants c)"
    by auto
  from c(2) have "set (descendants d) \<subseteq> set (descendants c)"
    using Tag.IH[OF c(1)] by auto
  with c(1) show ?case by auto
qed

lemma find_all_descendant: "d \<in> set (find_all names n) \<Longrightarrow> d \<in> set (descendants n)"
  by (simp add: find_all_def)

lemma find_all_a_href_below:
  "d \<in> set (descendants n) \<Longrightarrow> link \<in> set (find_all_a_href d) \<Longrightarrow> link \<in> set (find_all_a_href n)"
  using descendants_trans[of d n] by (auto simp: find_all_a_href_def)

lemma those_map_Some:
  "those (map f xs) = Some ys \<Longrightarrow> \<forall>y \<in> set ys. \<exists>x \<in> set xs. f x = Some y"
proof (induction xs arbitrary: ys)
  case Nil
  then show ?case by simp
next
  case (Cons x xs)
  from Cons.prems obtain y0 zs where
    y0: "f x = Some y0" "those (map f xs) = Some zs" "ys = y0 # zs"
    by (auto split: option.splits)
  from Cons.IH[OF y0(2)] have "\<forall>y \<in> set zs. \<exists>x' \<in> set (x # xs). f x' = Some y" by auto
  moreover have "\<exists>x' \<in> set (x # xs). f x' = Some y0" using y0(1) by simp
  ultimately show ?case using y0(3) by simp
qed

lemma link_record_url: "link_record e link = Some r \<Longrightarrow> url_of_link e r link"
  by (auto simp: link_record_def url_of_link_def split: option.splits if_splits)

lemma spec_page_links_url:
  assumes "spec_page_links e soup = Some rs" and "r \<in> set rs"
  shows "\<exists>link \<in> set (find_all_a_href soup). url_of_link e r link"
proof -
  from those_map_Some[OF assms(1)[unfolded spec_page_links_def]] assms(2)
  obtain link where "link \<in> set (filter is_document_link (find_all_a_href soup))"
    "link_record e link = Some r" by blast
  then show ?thesis using link_record_url by auto
qed

lemma find_a_href_member: "find_a_href n = Some link \<Longrightarrow> link \<in> set (find_all_a_href n)"
  by (auto simp: find_a_href_def split: list.splits)

lemma extract_rows_url:
  "extract_rows e rows acc = Some out \<Longrightarrow> r \<in> set out \<Longrightarrow>
   r \<in> set acc \<or> (\<exists>row \<in> set rows. \<exists>link \<in> set (find_all_a_href row). url_of_link e r link)"
proof (induction rows arbitrary: acc)
  case Nil
  then show ?case by simp
next
  case (Cons row rows)
  let ?cells = "find_all [''td'', ''th''] row"
  show ?case
  proof (cases "2 \<le> length ?cells")
    case False
    with Cons.prems have "extract_rows e rows acc = Some out" by (simp add: Let_def)
    from Cons.IH[OF this Cons.prems(2)] show ?thesis by auto
  next
    case True
    then have "0 < length ?cells" by linarith
    then have "?cells ! 0 \<in> set ?cells" by (rule nth_mem)
    then have cell: "?cells ! 0 \<in> set (descendants row)" by (rule find_all_descendant)
    show ?thesis
    proof (cases "find_a_href (?cells ! 0)")
      case None
      with True Cons.prems have "extract_rows e rows acc = Some out" by (simp add: Let_def)
      from Cons.IH[OF this Cons.prems(2)] show ?thesis by auto
    next
      case (Some link)
      then have link: "link \<in> set (find_all_a_href row)"
        using find_all_a_href_below[OF cell] find_a_href_member by blast
      from Cons.prems(1) True Some obtain href full_url where
        h: "getitem link ''href'' = Some href" "urljoin e base_url href = Some full_url"
        and rest: "extract_rows e rows
              (acc @ [\<lparr>rec_filename = strip (get_text link), rec_url = full_url,
                       rec_release_date = strip (get_text (?cells ! 1))\<rparr>]) = Some out"
        by (auto simp: Let_def split: option.splits)
      let ?rec = "\<lparr>rec_filename = strip (get_text link), rec_url = full_url,
                       rec_release_date = strip (get_text (?cells ! 1))\<rparr>"
      have new: "url_of_link e ?rec link" using h by (simp add: url_of_link_def)
      from Cons.IH[OF rest Cons.prems(2)]
      consider "r \<in> set acc" | "r = ?rec"
        | "\<exists>row \<in> set rows. \<exists>link \<in> set (find_all_a_href row). url_of_link e r link"
        by auto
      then show ?thesis
      proof cases
        case 1
        then show ?thesis by simp
      next
        case 2
        with new link show ?thesis by auto
      next
        case 3
        then show ?thesis by auto
      qed
    qed
  qed
qed

lemma find_member: "find P xs = Some x \<Longrightarrow> x \<in> set xs"
  by (induction xs) (auto split: if_splits)

lemma spec_select_table_member:
  "spec_select_table soup = Some t \<Longrightarrow> t \<in> set (descendants soup)"
  by (auto simp: spec_select_table_def Let_def split: option.splits
      dest!: find_member find_all_descendant)

lemma scrape_page_url:
  assumes "scrape_page e soup = Some rs" and "r \<in> set rs"
  shows "\<exists>link \<in> set (find_all_a_href soup). url_of_link e r link"
proof (cases "spec_select_table soup")
  case None
  with assms(1) have "spec_page_links e soup = Some rs" by (simp add: scrape_page_eq)
  from spec_page_links_url[OF this assms(2)] show ?thesis .
next
  case (Some t)
  with assms(1) have "extract_rows e (drop 1 (find_all [''tr''] t)) [] = Some rs"
    by (simp add: scrape_page_eq)
  from extract_rows_url[OF this assms(2)] obtain row link where
    row: "row \<in> set (drop 1 (find_all [''tr''] t))" and
    link: "link \<in> set (find_all_a_href row)" "url_of_link e r link"
    by auto
  from row have "row \<in> set (descendants t)"
    using find_all_descendant in_set_dropD by fast
  then have "link \<in> set (find_all_a_href t)" using link(1) find_all_a_href_below by blast
  then have "link \<in> set (find_all_a_href soup)"
    using spec_select_table_member[OF Some] find_all_a_href_below by blast
  with link(2) show ?thesis by blast
qed

text \<open>
  C2: on a fetched page the records table is the first table whose header cells (stripped)
  include both \<open>Record Number\<close> and \<open>NARA Release Date\<close>; if there is none, the first table
  with more than 10 links whose \<open>href\<close>, in lower case, contains \<open>.pdf\<close>; the rows of that
  table give the records. If there is no such table either, the records are made from every
  link of the page whose \<open>href\<close>, in lower case, contains \<open>.pdf\<close> or \<open>.mp3\<close>, in document
  order. In every case the \<open>url\<close> of a record is \<open>urljoin(base_url, href)\<close> for the \<open>href\<close>
  of a link of the page.
\<close>

theorem scrape_mlk_records_selection:
  assumes "session_get_page e = Soup soup"
  shows "scrape_mlk_records e =
           (case (case spec_select_table soup of
                    Some t \<Rightarrow> extract_rows e (drop 1 (find_all [''tr''] t)) []
                  | None \<Rightarrow> spec_page_links e soup) of
              Some records \<Rightarrow> records
            | None \<Rightarrow> [])
       \<and> (\<forall>r \<in> set (scrape_mlk_records e).
            \<exists>link \<in> set (find_all_a_href soup). url_of_link e r link)"
proof
  show "scrape_mlk_records e =
           (case (case spec_select_table soup of
                    Some t \<Rightarrow> extract_rows e (drop 1 (find_all [''tr''] t)) []
                  | None \<Rightarrow> spec_page_links e soup) of
              Some records \<Rightarrow> records
            | None \<Rightarrow> [])"
    using assms by (simp add: scrape_mlk_records_def scrape_page_eq)
  show "\<forall>r \<in> set (scrape_mlk_records e).
            \<exists>link \<in> set (find_all_a_href soup). url_of_link e r link"
  proof (cases "scrape_page e soup")
    case None
    with assms show ?thesis by (simp add: scrape_mlk_records_def)
  next
    case (Some rs)
    with assms have "scrape_mlk_records e = rs" by (simp add: scrape_mlk_records_def)
    then show ?thesis using scrape_page_url[OF Some] by blast
  qed
qed

text \<open>
  C8: \<open>scrape_mlk_records\<close> returns the empty list when fetching the page raises, when
  parsing it raises, when an exception is raised while the records are extracted, and when
  the page has no records table and no link to a PDF or MP3 file.
\<close>

theorem scrape_mlk_records_empty_on_failure:
  "(session_get_page e = RequestException msg \<or> session_get_page e = ParserException msg
      \<longrightarrow> scrape_mlk_records e = [])
   \<and> (session_get_page e = Soup soup \<and> scrape_page e soup = None \<longrightarrow> scrape_mlk_records e = [])
   \<and> (session_get_page e = Soup soup \<and> spec_select_table soup = None
        \<and> filter is_document_link (find_all_a_href soup) = []
      \<longrightarrow> scrape_mlk_records e = [])"
  by (auto simp: scrape_mlk_records_def scrape_page_eq spec_page_links_def)

lemma ex_scrape_env_page: "session_get_page (ex_scrape_env page) = page"
  by (simp add: ex_scrape_env_def)

theorem scrape_mlk_records_selection_witness:
  "scrape_mlk_records (ex_scrape_env (Soup ex_page)) =
     [\<lparr>rec_filename = ''104-10001'',
       rec_url = ''https://www.archives.gov/files/research/mlk/104-10001.pdf'',
       rec_release_date = ''07/21/2025''\<rparr>]
   \<and> scrape_mlk_records (ex_scrape_env (Soup ex_links_page)) =
     [\<lparr>rec_filename = ''tape.MP3'', rec_url = ''https://www.archives.gov/files/tape.MP3'',
       rec_release_date = ''Unknown''\<rparr>]"
proof -
  have a: "(case (case spec_select_table ex_page of
                    Some t \<Rightarrow> extract_rows (ex_scrape_env (Soup ex_page)) (drop 1 (find_all [''tr''] t)) []
                  | None \<Rightarrow> spec_page_links (ex_scrape_env (Soup ex_page)) ex_page) of
              Some records \<Rightarrow> records
            | None \<Rightarrow> []) =
     [\<lparr>rec_filename = ''104-10001'',
       rec_url = ''https://www.archives.gov/files/research/mlk/104-10001.pdf'',
       rec_release_date = ''07/21/2025''\<rparr>]"
    by code_simp
  have b: "(case (case spec_select_table ex_links_page of
                    Some t \<Rightarrow> extract_rows (ex_scrape_env (Soup ex_links_page)) (drop 1 (find_all [''tr''] t)) []
                  | None \<Rightarrow> spec_page_links (ex_scrape_env (Soup ex_links_page)) ex_links_page) of
              Some records \<Rightarrow> records
            | None \<Rightarrow> []) =
     [\<lparr>rec_filename = ''tape.MP3'', rec_url = ''https://www.archives.gov/files/tape.MP3'',
       rec_release_date = ''Unknown''\<rparr>]"
    by code_simp
  show ?thesis
    using scrape_mlk_records_selection[OF ex_scrape_env_page, of ex_page]
      scrape_mlk_records_selection[OF ex_scrape_env_page, of ex_links_page]
    by (simp only: a b simp_thms)
qed

theorem scrape_mlk_records_empty_on_failure_witness:
  "scrape_mlk_records (ex_scrape_env (RequestException ''503 Server Error'')) = []
   \<and> scrape_mlk_records ex_broken_env = []
   \<and> scrape_mlk_records (ex_scrape_env (Soup ex_plain_page)) = []"
proof -
  have a: "session_get_page ex_broken_env = Soup ex_links_page \<and> scrape_page ex_broken_env ex_links_page = None"
    by code_simp
  have b: "spec_select_table ex_plain_page = None
     \<and> filter is_document_link (find_all_a_href ex_plain_page) = []"
    by code_simp
  show ?thesis
    using scrape_mlk_records_empty_on_failure[of "ex_scrape_env (RequestException ''503 Server Error'')"
        "''503 Server Error''" ex_plain_page]
      scrape_mlk_records_empty_on_failure[of ex_broken_env "[]" ex_links_page]
      scrape_mlk_records_empty_on_failure[of "ex_scrape_env (Soup ex_plain_page)" "[]" ex_plain_page]
      a b
    by (simp add: ex_scrape_env_page)
qed

end
